theory Spec2Isabelle
  imports Main "HOL-Library.Word" "HOL-Library.Multiset"
begin

unbundle bit_operations_syntax

section \<open>JavaScript numbers and strings, as far as the address module uses them\<close>

text \<open>
  The TypeScript sources compute with the \<open>number\<close> type. Every number that the modelled
  functions meet is an integer (an exact double below \<open>2^53\<close>) or the value \<open>NaN\<close> that
  \<open>parseInt\<close> returns for a string without digits. The bitwise operators first convert
  their operands with ToInt32 (\<open>NaN\<close> becomes \<open>0\<close>, an integer is wrapped into the signed
  32-bit range) and return a signed 32-bit integer.
\<close>

datatype jsnum = Num int | NaN

definition toInt32 :: "jsnum \<Rightarrow> int" where
  "toInt32 x = (case x of NaN \<Rightarrow> 0 | Num n \<Rightarrow> (n + 2 ^ 31) mod 2 ^ 32 - 2 ^ 31)"

definition js_and :: "jsnum \<Rightarrow> jsnum \<Rightarrow> jsnum" where
  "js_and a b = Num (toInt32 a AND toInt32 b)"

definition js_shl :: "jsnum \<Rightarrow> nat \<Rightarrow> jsnum" where
  "js_shl a k = Num (toInt32 (Num (toInt32 a * 2 ^ (k mod 32))))"

definition js_shr :: "jsnum \<Rightarrow> nat \<Rightarrow> jsnum" where
  "js_shr a k = Num (toInt32 a div 2 ^ (k mod 32))"

definition js_add :: "jsnum \<Rightarrow> jsnum \<Rightarrow> jsnum" where
  "js_add a b = (case (a, b) of (Num x, Num y) \<Rightarrow> Num (x + y) | _ \<Rightarrow> NaN)"

text \<open>Characters: the value of a digit in any radix up to 36, ASCII upper-casing, white space.\<close>

definition digit_val :: "char \<Rightarrow> nat option" where
  "digit_val c =
     (let k = (of_char c :: nat) in
      if 48 \<le> k \<and> k \<le> 57 then Some (k - 48)
      else if 97 \<le> k \<and> k \<le> 122 then Some (k - 87)
      else if 65 \<le> k \<and> k \<le> 90 then Some (k - 55)
      else None)"

definition is_digit :: "nat \<Rightarrow> char \<Rightarrow> bool" where
  "is_digit radix c = (case digit_val c of None \<Rightarrow> False | Some v \<Rightarrow> v < radix)"

definition digit_nat :: "char \<Rightarrow> nat" where
  "digit_nat c = (case digit_val c of None \<Rightarrow> 0 | Some v \<Rightarrow> v)"

definition is_space :: "char \<Rightarrow> bool" where
  "is_space c = ((of_char c :: nat) \<in> {9, 10, 11, 12, 13, 32})"

definition upper_char :: "char \<Rightarrow> char" where
  "upper_char c =
     (let k = (of_char c :: nat) in if 97 \<le> k \<and> k \<le> 122 then char_of (k - 32) else c)"

definition toUpperCase :: "string \<Rightarrow> string" where
  "toUpperCase s = map upper_char s"

definition padStart :: "nat \<Rightarrow> char \<Rightarrow> string \<Rightarrow> string" where
  "padStart n c s = replicate (n - length s) c @ s"

text \<open>\<open>s.split(c)\<close> for a one-character separator: the pieces between the separators.\<close>

fun split_on :: "char \<Rightarrow> string \<Rightarrow> string list" where
  "split_on c [] = [[]]"
| "split_on c (x # xs) =
     (if x = c then [] # split_on c xs
      else (case split_on c xs of [] \<Rightarrow> [[x]] | p # ps \<Rightarrow> (x # p) # ps))"

text \<open>\<open>startsWith\<close> is the prefix test.\<close>

definition startsWith :: "string \<Rightarrow> string \<Rightarrow> bool" where
  "startsWith s p = (take (length p) s = p)"

text \<open>
  \<open>parseInt(s, radix)\<close> for radix 10 and 16: leading white space is dropped, one sign is
  read, for radix 16 a prefix \<open>0x\<close> or \<open>0X\<close> is dropped, and the longest run of digits of
  the radix is the value; no digit at all gives \<open>NaN\<close>.
\<close>

definition digits_value :: "nat \<Rightarrow> string \<Rightarrow> nat" where
  "digits_value radix ds = foldl (\<lambda>a c. a * radix + digit_nat c) 0 ds"

definition parseInt :: "string \<Rightarrow> nat \<Rightarrow> jsnum" where
  "parseInt input radix =
     (let s = dropWhile is_space input;
          neg = (case s of [] \<Rightarrow> False | c # _ \<Rightarrow> c = CHR ''-'');
          s1 = (case s of [] \<Rightarrow> [] | c # r \<Rightarrow> if c = CHR ''-'' \<or> c = CHR ''+'' then r else s);
          s2 = (if radix = 16 \<and> (startsWith s1 ''0x'' \<or> startsWith s1 ''0X'') then drop 2 s1 else s1);
          ds = takeWhile (is_digit radix) s2
      in if ds = [] then NaN
         else Num ((if neg then - 1 else 1) * int (digits_value radix ds)))"

text \<open>\<open>n.toString(16)\<close> for an integer or \<open>NaN\<close>: lower-case digits, a minus sign for a negative.\<close>

definition hexdigit :: "nat \<Rightarrow> char" where
  "hexdigit d = ''0123456789abcdef'' ! (d mod 16)"

fun digits16 :: "nat \<Rightarrow> string" where
  "digits16 n = (if n < 16 then [hexdigit n] else digits16 (n div 16) @ [hexdigit (n mod 16)])"

declare digits16.simps [simp del]

definition toString16 :: "jsnum \<Rightarrow> string" where
  "toString16 x =
     (case x of NaN \<Rightarrow> ''NaN''
      | Num n \<Rightarrow> if n < 0 then CHR ''-'' # digits16 (nat (- n)) else digits16 (nat n))"

section \<open>Addresses (packages/core/src/address.ts)\<close>

record SegOff =
  segment :: jsnum
  offset :: jsnum

record DosAddress =
  linear :: jsnum
  segOff :: SegOff

definition segOffToLinear :: "jsnum \<Rightarrow> jsnum \<Rightarrow> jsnum" where
  "segOffToLinear seg off = js_add (js_shl (js_and seg (Num 0xffff)) 4) (js_and off (Num 0xffff))"

definition linearToSegOff :: "jsnum \<Rightarrow> SegOff" where
  "linearToSegOff lin =
     \<lparr> segment = js_and (js_shr lin 4) (Num 0xffff), offset = js_and lin (Num 0x000f) \<rparr>"

text \<open>
  Destructuring \<open>[segStr, offStr] = input.split(':')\<close> reads the first two pieces; a missing
  piece is \<open>undefined\<close>, which \<open>parseInt\<close> turns into \<open>NaN\<close>.
\<close>

definition parseInt_piece :: "string list \<Rightarrow> nat \<Rightarrow> nat \<Rightarrow> jsnum" where
  "parseInt_piece ps i radix = (if i < length ps then parseInt (ps ! i) radix else NaN)"

definition parseAddress :: "string \<Rightarrow> DosAddress" where
  "parseAddress input =
     (if CHR '':'' \<in> set input then
        (let ps = split_on CHR '':'' input;
             seg = parseInt_piece ps 0 16;
             off = parseInt_piece ps 1 16
         in \<lparr> linear = segOffToLinear seg off, segOff = \<lparr> segment = seg, offset = off \<rparr> \<rparr>)
      else
        (let lin = (if startsWith input ''0x'' \<or> startsWith input ''0X''
                    then parseInt input 16 else parseInt input 10)
         in \<lparr> linear = lin, segOff = linearToSegOff lin \<rparr>))"

definition formatSegOff :: "jsnum \<Rightarrow> jsnum \<Rightarrow> string" where
  "formatSegOff seg off =
     padStart 4 CHR ''0'' (toUpperCase (toString16 seg)) @ '':'' @
     padStart 4 CHR ''0'' (toUpperCase (toString16 off))"

text \<open>The four-digit upper-case hexadecimal field that \<open>formatSegOff\<close> prints for a natural number.\<close>

definition hexfield :: "nat \<Rightarrow> string" where
  "hexfield n = padStart 4 CHR ''0'' (toUpperCase (toString16 (Num (int n))))"

section \<open>Errors and buffers\<close>

text \<open>
  The error classes of the repository: the plain JavaScript \<open>Error\<close> and the three typed
  errors exported by the shared package. A raise is the left injection of a result.
  A \<open>Buffer\<close> is a list of bytes; \<open>Buffer.from(s, 'hex')\<close> decodes pairs of hexadecimal
  digits and stops at the first pair that is not one.
\<close>

datatype error = Error string | ConnectionError string | TimeoutError string | ProtocolError string

type_synonym bytes = "8 word list"

fun from_hex :: "string \<Rightarrow> bytes" where
  "from_hex (a # b # r) =
     (if is_digit 16 a \<and> is_digit 16 b
      then word_of_nat (digit_nat a * 16 + digit_nat b) # from_hex r else [])"
| "from_hex _ = []"

section \<open>The remote-debug client: chunked memory read (GdbClient.readMemory)\<close>

text \<open>
  The debug stub is the environment: it answers a command knowing every command sent so
  far, with a payload or with the error that \<open>command\<close> raises (a timeout, a closed
  socket). \<open>command\<close> appends the payload to the list of commands sent.
\<close>

type_synonym gdb_stub = "string list \<Rightarrow> error + string"

definition CHUNK_SIZE :: int where
  "CHUNK_SIZE = 4096"

definition command :: "bool \<Rightarrow> gdb_stub \<Rightarrow> string list \<Rightarrow> string \<Rightarrow> string list \<times> (error + string)" where
  "command connected stub sent cmd =
     (if \<not> connected then (sent, Inl (ConnectionError ''GDB not connected''))
      else (sent @ [cmd], stub (sent @ [cmd])))"

definition read_request :: "jsnum \<Rightarrow> int \<Rightarrow> int \<Rightarrow> string" where
  "read_request addr len off =
     ''m'' @ toString16 (js_add addr (Num off)) @ '','' @ toString16 (Num (min CHUNK_SIZE (len - off)))"

function readMemory_loop ::
  "bool \<Rightarrow> gdb_stub \<Rightarrow> jsnum \<Rightarrow> int \<Rightarrow> int \<Rightarrow> string list \<Rightarrow> bytes list \<Rightarrow> string list \<times> (error + bytes)"
where
  "readMemory_loop connected stub addr len off sent result =
     (if off < len then
        (case command connected stub sent (read_request addr len off) of
           (sent', Inl e) \<Rightarrow> (sent', Inl e)
         | (sent', Inr resp) \<Rightarrow>
             if startsWith resp ''E''
             then (sent', Inl (ProtocolError
                     (''GDB memory read error at 0x'' @ toString16 (js_add addr (Num off))
                        @ '': '' @ resp)))
             else readMemory_loop connected stub addr len (off + CHUNK_SIZE) sent'
                    (result @ [from_hex resp]))
      else (sent, Inr (concat result)))"
  by pat_completeness auto
termination
  by (relation "measure (\<lambda>(c, s, a, len, off, sent, res). nat (len - off))")
     (auto simp: CHUNK_SIZE_def)

declare readMemory_loop.simps [simp del]

definition gdb_readMemory ::
  "bool \<Rightarrow> gdb_stub \<Rightarrow> string list \<Rightarrow> jsnum \<Rightarrow> int \<Rightarrow> string list \<times> (error + bytes)" where
  "gdb_readMemory connected stub sent addr len = readMemory_loop connected stub addr len 0 sent []"

text \<open>
  For stating what \<open>readMemory\<close> does: the number of chunks of a read, the requests of
  all chunks in order, the stub's reply to the \<open>k\<close>-th of them, whether a reply is accepted,
  the bytes it decodes to and the error a refused reply raises.
\<close>

definition num_chunks :: "int \<Rightarrow> nat" where
  "num_chunks len = nat ((len + CHUNK_SIZE - 1) div CHUNK_SIZE)"

definition requests :: "jsnum \<Rightarrow> int \<Rightarrow> string list" where
  "requests addr len = map (\<lambda>k. read_request addr len (int k * CHUNK_SIZE)) [0..<num_chunks len]"

definition reply :: "gdb_stub \<Rightarrow> string list \<Rightarrow> jsnum \<Rightarrow> int \<Rightarrow> nat \<Rightarrow> error + string" where
  "reply stub sent addr len k = stub (sent @ take (Suc k) (requests addr len))"

definition reply_ok :: "error + string \<Rightarrow> bool" where
  "reply_ok r = (case r of Inl e \<Rightarrow> False | Inr resp \<Rightarrow> \<not> startsWith resp ''E'')"

definition decoded :: "error + string \<Rightarrow> bytes" where
  "decoded r = (case r of Inl e \<Rightarrow> [] | Inr resp \<Rightarrow> from_hex resp)"

definition read_failure :: "jsnum \<Rightarrow> nat \<Rightarrow> error + string \<Rightarrow> error" where
  "read_failure addr k r =
     (case r of Inl e \<Rightarrow> e
      | Inr resp \<Rightarrow> ProtocolError (''GDB memory read error at 0x''
           @ toString16 (js_add addr (Num (int k * CHUNK_SIZE))) @ '': '' @ resp))"

text \<open>Two stubs for concrete runs: one accepts every read, one refuses the second command.\<close>

definition stub_ok :: gdb_stub where
  "stub_ok h = Inr ''0aff''"

definition stub_bad_second :: gdb_stub where
  "stub_bad_second h = (if length h = 2 then Inr ''E14'' else Inr ''0aff'')"

section \<open>Golden comparison (compareWithGolden)\<close>

text \<open>
  The digest \<open>sha256\<close> comes from the shared package and is a parameter here; the file
  system is a map from paths to contents (\<open>existsSync\<close> asks whether the path is mapped,
  \<open>readFileSync\<close> reads the contents). The optional fields of the result are options.
\<close>

record GoldenComparison =
  match :: bool
  goldenChecksum :: string
  actualChecksum :: string
  firstDiffOffset :: "nat option"
  goldenByte :: "8 word option"
  actualByte :: "8 word option"

function first_diff_from :: "bytes \<Rightarrow> bytes \<Rightarrow> nat \<Rightarrow> nat option" where
  "first_diff_from goldenData actualData i =
     (if i < min (length goldenData) (length actualData)
      then (if goldenData ! i \<noteq> actualData ! i then Some i
            else first_diff_from goldenData actualData (Suc i))
      else None)"
  by pat_completeness auto
termination
  by (relation "measure (\<lambda>(g, a, i). min (length g) (length a) - i)") auto

declare first_diff_from.simps [simp del]

definition compareWithGolden ::
  "(bytes \<Rightarrow> string) \<Rightarrow> (string \<Rightarrow> bytes option) \<Rightarrow> string \<Rightarrow> bytes \<Rightarrow> GoldenComparison" where
  "compareWithGolden sha256 fs goldenPath actualData =
     (case fs goldenPath of
        None \<Rightarrow>
          \<lparr> match = False, goldenChecksum = '''', actualChecksum = sha256 actualData,
            firstDiffOffset = None, goldenByte = None, actualByte = None \<rparr>
      | Some goldenData \<Rightarrow>
          (let goldenChecksum = sha256 goldenData;
               actualChecksum = sha256 actualData
           in if goldenChecksum = actualChecksum
              then \<lparr> match = True, goldenChecksum = goldenChecksum, actualChecksum = actualChecksum,
                     firstDiffOffset = None, goldenByte = None, actualByte = None \<rparr>
              else (case first_diff_from goldenData actualData 0 of
                      Some i \<Rightarrow>
                        \<lparr> match = False, goldenChecksum = goldenChecksum,
                          actualChecksum = actualChecksum, firstDiffOffset = Some i,
                          goldenByte = Some (goldenData ! i), actualByte = Some (actualData ! i) \<rparr>
                    | None \<Rightarrow>
                        \<lparr> match = False, goldenChecksum = goldenChecksum,
                          actualChecksum = actualChecksum,
                          firstDiffOffset = Some (min (length goldenData) (length actualData)),
                          goldenByte = None, actualByte = None \<rparr>)))"

text \<open>A stand-in digest for concrete runs: the hexadecimal dump of the bytes (no collisions).\<close>

definition hexdump :: "bytes \<Rightarrow> string" where
  "hexdump bs = concat (map (\<lambda>b. [hexdigit (unat b div 16), hexdigit (unat b mod 16)]) bs)"

text \<open>A file system with one golden file, for concrete runs.\<close>

definition golden_fs :: "string \<Rightarrow> bytes option" where
  "golden_fs = [''golden/t1_framebuffer.bin'' \<mapsto> [1, 2, 3]]"

section \<open>The socket-based backend (QemuBackend)\<close>

text \<open>
  An asynchronous operation returns, raises, or never completes (the machine-control
  client waits for its response without a timeout).
\<close>

datatype 'a outcome = Returned 'a | Raised error | Pending

fun message :: "error \<Rightarrow> string" where
  "message (Error m) = m"
| "message (ConnectionError m) = m"
| "message (TimeoutError m) = m"
| "message (ProtocolError m) = m"

datatype BackendStatus = Disconnected | Launching | Running | Paused | ErrorStatus

datatype BreakpointType = Execution | Memory | Interrupt

fun type_name :: "BreakpointType \<Rightarrow> string" where
  "type_name Execution = ''execution''"
| "type_name Memory = ''memory''"
| "type_name Interrupt = ''interrupt''"

record Breakpoint =
  bp_id :: string
  bp_type :: BreakpointType
  bp_address :: "DosAddress option"
  bp_enabled :: bool

text \<open>
  The machine-control monitor is the environment of \<open>QmpClient.execute\<close>: knowing every
  request sent so far (command name and, for the human monitor, its command line) it
  returns, answers with an error (raised as \<open>ProtocolError\<close>; a closed socket raises
  \<open>ConnectionError\<close>), or stays silent.
\<close>

datatype qmp_reply = QReturn | QRaise error | QSilent

type_synonym qmp_request = "string \<times> string option"

type_synonym qmp_monitor = "qmp_request list \<Rightarrow> qmp_reply"

text \<open>What an operation does, in order: assignments to the status, events, wire traffic.\<close>

datatype backend_event =
    StatusEvent BackendStatus
  | SnapshotLoading string
  | SnapshotLoaded string
  | SnapshotLoadFailed string string

datatype action =
    SetStatus BackendStatus
  | Emit backend_event
  | QmpSend qmp_request
  | QmpAnswer qmp_reply
  | GdbExchange string "error + string"

record QemuBackend =
  qmp :: bool
  gdb :: bool
  currentStatus :: BackendStatus
  breakpoints :: "(string \<times> jsnum \<times> Breakpoint) list"
  nextBpId :: nat
  qmp_sent :: "qmp_request list"
  gdb_sent :: "string list"

text \<open>Decimal printing of the breakpoint counter, for the identifier \<open>bp_<n>\<close>.\<close>

fun digits10 :: "nat \<Rightarrow> string" where
  "digits10 n = (if n < 10 then [hexdigit n] else digits10 (n div 10) @ [hexdigit (n mod 10)])"

declare digits10.simps [simp del]

text \<open>\<open>Map.set\<close> and \<open>Map.delete\<close> on a table kept in insertion order.\<close>

fun table_set :: "string \<Rightarrow> 'v \<Rightarrow> (string \<times> 'v) list \<Rightarrow> (string \<times> 'v) list" where
  "table_set k v [] = [(k, v)]"
| "table_set k v ((k', v') # t) = (if k' = k then (k, v) # t else (k', v') # table_set k v t)"

definition table_delete :: "string \<Rightarrow> (string \<times> 'v) list \<Rightarrow> (string \<times> 'v) list" where
  "table_delete k t = filter (\<lambda>(k', v). k' \<noteq> k) t"

definition setBreakpoint_request :: "jsnum \<Rightarrow> string" where
  "setBreakpoint_request addr = ''Z0,'' @ toString16 addr @ '',1''"

definition removeBreakpoint_request :: "jsnum \<Rightarrow> string" where
  "removeBreakpoint_request addr = ''z0,'' @ toString16 addr @ '',1''"

definition qemu_setBreakpoint ::
  "gdb_stub \<Rightarrow> BreakpointType \<Rightarrow> DosAddress \<Rightarrow> QemuBackend
     \<Rightarrow> action list \<times> QemuBackend \<times> (error + Breakpoint)" where
  "qemu_setBreakpoint stub ty address s =
     (if \<not> gdb s then ([], s, Inl (Error ''GDB not connected''))
      else if ty \<noteq> Execution
      then ([], s, Inl (Error (''QEMU GDB only supports execution breakpoints, got: '' @ type_name ty)))
      else
        (let cmd = setBreakpoint_request (linear address);
             (sent, resp) = command True stub (gdb_sent s) cmd;
             s1 = s\<lparr>gdb_sent := sent\<rparr>;
             tr = [GdbExchange cmd resp]
         in case resp of
              Inl e \<Rightarrow> (tr, s1, Inl e)
            | Inr r \<Rightarrow>
                if r \<noteq> ''OK''
                then (tr, s1, Inl (ProtocolError (''Failed to set breakpoint at 0x''
                        @ toString16 (linear address) @ '': '' @ r)))
                else
                  (let ident = ''bp_'' @ digits10 (nextBpId s1);
                       bp = \<lparr> bp_id = ident, bp_type = ty, bp_address = Some address,
                              bp_enabled = True \<rparr>
                   in (tr,
                       s1\<lparr>nextBpId := Suc (nextBpId s1),
                          breakpoints := table_set ident (linear address, bp) (breakpoints s1)\<rparr>,
                       Inr bp))))"

definition qemu_removeBreakpoint ::
  "gdb_stub \<Rightarrow> string \<Rightarrow> QemuBackend \<Rightarrow> action list \<times> QemuBackend \<times> (error + unit)" where
  "qemu_removeBreakpoint stub ident s =
     (if \<not> gdb s then ([], s, Inl (Error ''GDB not connected''))
      else case map_of (breakpoints s) ident of
             None \<Rightarrow> ([], s, Inr ())
           | Some (addr, bp) \<Rightarrow>
               (let cmd = removeBreakpoint_request addr;
                    (sent, resp) = command True stub (gdb_sent s) cmd;
                    s1 = s\<lparr>gdb_sent := sent\<rparr>;
                    tr = [GdbExchange cmd resp]
                in case resp of
                     Inl e \<Rightarrow> (tr, s1, Inl e)
                   | Inr r \<Rightarrow> (tr, s1\<lparr>breakpoints := table_delete ident (breakpoints s1)\<rparr>, Inr ())))"

definition qemu_listBreakpoints :: "QemuBackend \<Rightarrow> Breakpoint list" where
  "qemu_listBreakpoints s = map (\<lambda>(k, addr, bp). bp) (breakpoints s)"

definition execute ::
  "bool \<Rightarrow> qmp_monitor \<Rightarrow> qmp_request list \<Rightarrow> qmp_request \<Rightarrow> qmp_request list \<times> qmp_reply" where
  "execute connected monitor sent req =
     (if \<not> connected then (sent, QRaise (ConnectionError ''QMP socket not connected''))
      else (sent @ [req], monitor (sent @ [req])))"

definition loadvm_request :: "string \<Rightarrow> qmp_request" where
  "loadvm_request name = (''human-monitor-command'', Some (''loadvm '' @ name))"

definition cont_request :: qmp_request where
  "cont_request = (''cont'', None)"

definition qemu_loadSnapshot ::
  "qmp_monitor \<Rightarrow> string \<Rightarrow> QemuBackend \<Rightarrow> action list \<times> QemuBackend \<times> unit outcome" where
  "qemu_loadSnapshot monitor name s =
     (if \<not> qmp s then ([], s, Raised (Error ''QMP not connected''))
      else
        (let s1 = s\<lparr>currentStatus := Paused\<rparr>;
             tr1 = [SetStatus Paused, Emit (StatusEvent Paused), Emit (SnapshotLoading name)];
             (sent2, r2) = execute True monitor (qmp_sent s1) (loadvm_request name);
             s2 = s1\<lparr>qmp_sent := sent2\<rparr>;
             tr2 = tr1 @ [QmpSend (loadvm_request name)]
         in case r2 of
              QSilent \<Rightarrow> (tr2, s2, Pending)
            | QRaise e \<Rightarrow>
                (tr2 @ [QmpAnswer r2, Emit (SnapshotLoadFailed name (message e))], s2, Raised e)
            | QReturn \<Rightarrow>
                (let s3 = s2\<lparr>breakpoints := []\<rparr>;
                     (sent4, r4) = execute True monitor (qmp_sent s3) cont_request;
                     s4 = s3\<lparr>qmp_sent := sent4\<rparr>;
                     tr4 = tr2 @ [QmpAnswer r2, QmpSend cont_request]
                 in case r4 of
                      QSilent \<Rightarrow> (tr4, s4, Pending)
                    | QRaise e \<Rightarrow>
                        (tr4 @ [QmpAnswer r4, Emit (SnapshotLoadFailed name (message e))],
                         s4, Raised e)
                    | QReturn \<Rightarrow>
                        (tr4 @ [QmpAnswer r4, SetStatus Running, Emit (StatusEvent Running),
                                Emit (SnapshotLoaded name)],
                         s4\<lparr>currentStatus := Running\<rparr>, Returned ()))))"

text \<open>
  The breakpoints the stub holds, read off the debug traffic: an acknowledged \<open>Z0\<close>
  inserts one at its address, an acknowledged \<open>z0\<close> removes one.
\<close>

definition packet_address :: "string \<Rightarrow> string" where
  "packet_address cmd = takeWhile (\<lambda>c. c \<noteq> CHR '','') (drop 3 cmd)"

fun stub_breakpoints :: "action list \<Rightarrow> string list \<Rightarrow> string list" where
  "stub_breakpoints [] bs = bs"
| "stub_breakpoints (GdbExchange cmd resp # tr) bs =
     (if resp = Inr ''OK'' \<and> startsWith cmd ''Z0,''
      then stub_breakpoints tr (bs @ [packet_address cmd])
      else if resp = Inr ''OK'' \<and> startsWith cmd ''z0,''
      then stub_breakpoints tr (remove1 (packet_address cmd) bs)
      else stub_breakpoints tr bs)"
| "stub_breakpoints (a # tr) bs = stub_breakpoints tr bs"

definition table_addresses :: "QemuBackend \<Rightarrow> string list" where
  "table_addresses s = map (\<lambda>(k, addr, bp). toString16 addr) (breakpoints s)"

text \<open>
  The table and the stub are in step when they hold the same addresses, each as often as
  the other; the table's keys are then distinct identifiers \<open>bp_<n>\<close> issued so far.
\<close>

definition bp_key :: "nat \<Rightarrow> string" where
  "bp_key n = ''bp_'' @ digits10 n"

definition in_step :: "QemuBackend \<Rightarrow> action list \<Rightarrow> bool" where
  "in_step s tr =
     (mset (table_addresses s) = mset (stub_breakpoints tr []) \<and>
      distinct (map fst (breakpoints s)) \<and>
      list_all (\<lambda>(k, v). list_ex (\<lambda>n. k = bp_key n) [0..<nextBpId s]) (breakpoints s))"

definition qemu0 :: QemuBackend where
  "qemu0 = \<lparr> qmp = True, gdb = True, currentStatus = Running, breakpoints = [], nextBpId = 1,
             qmp_sent = [], gdb_sent = [] \<rparr>"

text \<open>
  For stating the order of a snapshot load: the actions up to the \<open>loadvm\<close> request, and the
  monitor's answers to \<open>loadvm\<close> and to the \<open>cont\<close> that follows it.
\<close>

definition loading_prefix :: "string \<Rightarrow> action list" where
  "loading_prefix name =
     [SetStatus Paused, Emit (StatusEvent Paused), Emit (SnapshotLoading name),
      QmpSend (loadvm_request name)]"

definition first_reply :: "qmp_monitor \<Rightarrow> string \<Rightarrow> QemuBackend \<Rightarrow> qmp_reply" where
  "first_reply monitor name s = monitor (qmp_sent s @ [loadvm_request name])"

definition second_reply :: "qmp_monitor \<Rightarrow> string \<Rightarrow> QemuBackend \<Rightarrow> qmp_reply" where
  "second_reply monitor name s = monitor (qmp_sent s @ [loadvm_request name, cont_request])"

text \<open>Environments for concrete runs.\<close>

definition stub_ack :: gdb_stub where
  "stub_ack h = Inr ''OK''"

definition monitor_ok :: qmp_monitor where
  "monitor_ok h = QReturn"

definition monitor_no_snapshot :: qmp_monitor where
  "monitor_no_snapshot h = QRaise (ProtocolError ''QMP error (GenericError): no such snapshot'')"

definition monitor_cont_fails :: qmp_monitor where
  "monitor_cont_fails h =
     (if length h = 2 then QRaise (ConnectionError ''QMP socket not connected'') else QReturn)"

text \<open>One breakpoint is set at linear \<open>0x100\<close>, then snapshot \<open>s1\<close> is loaded.\<close>

definition breakpoint_then_load :: "action list \<times> QemuBackend" where
  "breakpoint_then_load =
     (case qemu_setBreakpoint stub_ack Execution (parseAddress ''0x100'') qemu0 of
        (tr1, s1, r1) \<Rightarrow>
          (case qemu_loadSnapshot monitor_ok ''s1'' s1 of
             (tr2, s2, r2) \<Rightarrow> (tr1 @ tr2, s2)))"

section \<open>The session-based backend (DosboxBackend)\<close>

text \<open>
  A register file is a table from lower-case register names to values (possibly partial,
  as the log parser returns it). A path is joined with a slash.
\<close>

type_synonym registers = "(string \<times> int) list"

definition join :: "string \<Rightarrow> string \<Rightarrow> string" where
  "join dir name = dir @ ''/'' @ name"

text \<open>
  The environment of one session: whether a DOSBox-X binary is found (otherwise
  \<open>DosboxSession.launch\<close> raises), the files present once the session started with a given
  configuration file has exited, and the registers \<open>parseLastRegisters\<close> reads from a log.
\<close>

record dosbox_env =
  binary_found :: bool
  files_after :: "string \<Rightarrow> string \<Rightarrow> bytes option"
  log_registers :: "string \<Rightarrow> string \<Rightarrow> registers"

record DosboxBackend =
  dosbox_status :: BackendStatus
  capturesDir :: string
  confDir :: string

definition session_launch :: "dosbox_env \<Rightarrow> error option" where
  "session_launch env =
     (if binary_found env then None
      else Some (Error ''DOSBox-X binary not found. Set DOSBOX_X_BIN or install dosbox-x in PATH.''))"

definition dosbox_readMemory ::
  "dosbox_env \<Rightarrow> nat \<Rightarrow> DosboxBackend \<Rightarrow> DosAddress \<Rightarrow> int \<Rightarrow> error + bytes" where
  "dosbox_readMemory env now b address sz =
     (let outPath = join (capturesDir b) (''_mem_'' @ digits10 now @ ''.bin'');
          logPath = join (capturesDir b) ''_mem_read.log'';
          confPath = join (confDir b) ''_mem_read.conf''
      in case session_launch env of
           Some e \<Rightarrow> Inl e
         | None \<Rightarrow>
             (case files_after env confPath outPath of
                Some data \<Rightarrow> Inr data
              | None \<Rightarrow> Inl (Error (''Memory dump failed. Check '' @ logPath))))"

definition dosbox_writeMemory :: "DosboxBackend \<Rightarrow> DosAddress \<Rightarrow> bytes \<Rightarrow> error + unit" where
  "dosbox_writeMemory b address data =
     Inl (Error ''DOSBox-X does not support live memory writes from host'')"

definition dosbox_readRegisters :: "dosbox_env \<Rightarrow> DosboxBackend \<Rightarrow> error + registers" where
  "dosbox_readRegisters env b =
     (let logPath = join (capturesDir b) ''_regs.log'';
          confPath = join (confDir b) ''_regs.conf''
      in case session_launch env of
           Some e \<Rightarrow> Inl e
         | None \<Rightarrow> Inr (log_registers env confPath logPath))"

definition dosbox_sendKeys :: "dosbox_env \<Rightarrow> DosboxBackend \<Rightarrow> string list \<Rightarrow> error + unit" where
  "dosbox_sendKeys env b ks =
     (case session_launch env of Some e \<Rightarrow> Inl e | None \<Rightarrow> Inr ())"

definition dosbox_screenshot :: "DosboxBackend \<Rightarrow> error + (bytes \<times> string)" where
  "dosbox_screenshot b =
     Inl (Error ''Screenshots require interactive DOSBox-X session (Ctrl+F5)'')"

definition dosbox_setBreakpoint ::
  "DosboxBackend \<Rightarrow> BreakpointType \<Rightarrow> DosAddress \<Rightarrow> error + Breakpoint" where
  "dosbox_setBreakpoint b ty address =
     Inl (Error ''Breakpoints in DOSBox-X are set via debug scripts, not live'')"

definition dosbox_removeBreakpoint :: "DosboxBackend \<Rightarrow> string \<Rightarrow> error + unit" where
  "dosbox_removeBreakpoint b ident = Inr ()"

definition dosbox_listBreakpoints :: "DosboxBackend \<Rightarrow> error + Breakpoint list" where
  "dosbox_listBreakpoints b = Inr []"

definition dosbox_pause :: "DosboxBackend \<Rightarrow> error + unit" where
  "dosbox_pause b = Inr ()"

definition dosbox_resume :: "DosboxBackend \<Rightarrow> error + unit" where
  "dosbox_resume b = Inr ()"

definition dosbox_step :: "DosboxBackend \<Rightarrow> error + registers" where
  "dosbox_step b = Inl (Error ''Stepping in DOSBox-X requires a debug session'')"

definition dosbox_saveSnapshot :: "DosboxBackend \<Rightarrow> string \<Rightarrow> error + string" where
  "dosbox_saveSnapshot b name = Inl (Error ''Save states in DOSBox-X are created interactively'')"

definition dosbox_loadSnapshot :: "DosboxBackend \<Rightarrow> string \<Rightarrow> error + unit" where
  "dosbox_loadSnapshot b name = Inl (Error ''Save states in DOSBox-X are loaded interactively'')"

section \<open>The HTTP route POST /execution/pause\<close>

text \<open>
  The route answers 503 without a backend; otherwise it pauses, reads the registers and
  answers 200. An error raised on the way reaches the application's error handler, which
  answers 500 with the error's message.
\<close>

datatype http_body = ErrorBody string | PausedBody registers

datatype http_response = Response nat http_body

definition execution_pause ::
  "((error + unit) \<times> (error + registers)) option \<Rightarrow> http_response" where
  "execution_pause backend =
     (case backend of
        None \<Rightarrow> Response 503 (ErrorBody ''No backend running'')
      | Some (pause, readRegisters) \<Rightarrow>
          (case pause of
             Inl e \<Rightarrow> Response 500 (ErrorBody (message e))
           | Inr u \<Rightarrow>
               (case readRegisters of
                  Inl e \<Rightarrow> Response 500 (ErrorBody (message e))
                | Inr regs \<Rightarrow> Response 200 (PausedBody regs))))"

section \<open>Capture requests and results\<close>

record MemoryRange =
  range_address :: DosAddress
  range_size :: int
  range_filename :: string

record CaptureRequest =
  prefix :: string
  snapshot :: "string option"
  breakpoint :: "DosAddress option"
  keys :: "string list option"
  keyDelay :: "int option"
  waitTime :: "int option"
  memoryRanges :: "MemoryRange list option"
  captureFramebuffer :: "bool option"
  captureRegisters :: "bool option"
  captureScreenshot :: "bool option"
  timeout :: "int option"

record CaptureResult =
  result_prefix :: string
  framebuffer :: "bytes option"
  screenshot :: "bytes option"
  screenshotFormat :: string
  result_registers :: "registers option"
  memoryDumps :: "(string \<times> bytes) list"
  checksums :: "(string \<times> string) list"
  timestamp :: nat

text \<open>
  Modelled from the spec: the constants of \<open>capture/framebuffer.ts\<close>, which is not among
  the sources. The Mode-13h framebuffer is at linear address \<open>0xA0000\<close> and is 64,000 bytes
  long.
\<close>

definition MODE_13H_ADDRESS :: int where
  "MODE_13H_ADDRESS = 0xA0000"

definition MODE_13H_SIZE :: int where
  "MODE_13H_SIZE = 64000"

section \<open>The capture pipeline (CapturePipeline.run)\<close>

text \<open>
  The pipeline only talks to its backend and to the file system. Each such call is
  recorded, in order, with the error it raised, if any. The environment decides the
  outcome of a call from the calls made so far; the digest and the JSON printer are
  parameters.
\<close>

datatype file_content = Binary bytes | Text string

datatype call =
    LoadSnapshot string
  | Sleep int
  | SendKeys "string list" "int option"
  | SetBreakpoint BreakpointType DosAddress
  | Resume
  | WaitForStop int
  | RemoveBreakpoint string
  | Pause
  | ReadMemory DosAddress int
  | Screenshot
  | ReadRegisters
  | WriteFile string file_content

type_synonym entry = "call \<times> error option"

record pipeline_env =
  is_qemu :: bool
  has_getGdb :: bool
  gdb_client :: bool
  on_unit :: "entry list \<Rightarrow> call \<Rightarrow> error option"
  on_setBreakpoint :: "entry list \<Rightarrow> call \<Rightarrow> error + Breakpoint"
  on_waitForStop :: "entry list \<Rightarrow> call \<Rightarrow> error + string"
  on_readMemory :: "entry list \<Rightarrow> call \<Rightarrow> error + bytes"
  on_screenshot :: "entry list \<Rightarrow> call \<Rightarrow> error + (bytes \<times> string)"
  on_readRegisters :: "entry list \<Rightarrow> call \<Rightarrow> error + registers"

type_synonym 'a prog = "entry list \<Rightarrow> entry list \<times> (error + 'a)"

definition finish :: "'a \<Rightarrow> 'a prog" where
  "finish v h = (h, Inr v)"

definition throw :: "error \<Rightarrow> 'a prog" where
  "throw e h = (h, Inl e)"

definition and_then :: "'a prog \<Rightarrow> ('a \<Rightarrow> 'b prog) \<Rightarrow> 'b prog" where
  "and_then m k h = (case m h of (h', Inl e) \<Rightarrow> (h', Inl e) | (h', Inr v) \<Rightarrow> k v h')"

definition await :: "(entry list \<Rightarrow> call \<Rightarrow> error + 'a) \<Rightarrow> call \<Rightarrow> 'a prog" where
  "await f c h =
     (case f h c of Inl e \<Rightarrow> (h @ [(c, Some e)], Inl e) | Inr v \<Rightarrow> (h @ [(c, None)], Inr v))"

definition unit_result :: "(entry list \<Rightarrow> call \<Rightarrow> error option) \<Rightarrow> entry list \<Rightarrow> call \<Rightarrow> error + unit" where
  "unit_result f h c = (case f h c of Some e \<Rightarrow> Inl e | None \<Rightarrow> Inr ())"

definition never_fails :: "entry list \<Rightarrow> call \<Rightarrow> error + unit" where
  "never_fails h c = Inr ()"

definition sleep :: "int \<Rightarrow> unit prog" where
  "sleep ms = await never_fails (Sleep ms)"

definition or_default :: "'a option \<Rightarrow> 'a \<Rightarrow> 'a" where
  "or_default x d = (case x of None \<Rightarrow> d | Some v \<Rightarrow> v)"

definition restore_snapshot :: "pipeline_env \<Rightarrow> CaptureRequest \<Rightarrow> unit prog" where
  "restore_snapshot env request =
     (case snapshot request of
        None \<Rightarrow> finish ()
      | Some name \<Rightarrow>
          if name = [] then finish ()
          else and_then (await (unit_result (on_unit env)) (LoadSnapshot name)) (\<lambda>u. sleep 1000))"

definition inject_keys :: "pipeline_env \<Rightarrow> CaptureRequest \<Rightarrow> unit prog" where
  "inject_keys env request =
     (case keys request of
        None \<Rightarrow> finish ()
      | Some ks \<Rightarrow>
          if ks = [] then finish ()
          else and_then (await (unit_result (on_unit env)) (SendKeys ks (keyDelay request)))
                 (\<lambda>u. sleep (or_default (waitTime request) 2 * 1000)))"

definition stop_guest :: "pipeline_env \<Rightarrow> CaptureRequest \<Rightarrow> unit prog" where
  "stop_guest env request =
     (case breakpoint request of
        Some address \<Rightarrow>
          and_then (await (on_setBreakpoint env) (SetBreakpoint Execution address)) (\<lambda>bp.
          and_then (await (unit_result (on_unit env)) Resume) (\<lambda>u.
          and_then
            (if has_getGdb env then
               (if \<not> gdb_client env
                then throw (Error ''QEMU GDB connection is not available for breakpoint capture'')
                else and_then (await (on_waitForStop env)
                                 (WaitForStop (or_default (timeout request) 30 * 1000)))
                       (\<lambda>packet. finish ()))
             else sleep (or_default (timeout request) 30 * 1000)) (\<lambda>u.
          await (unit_result (on_unit env)) (RemoveBreakpoint (bp_id bp)))))
      | None \<Rightarrow> await (unit_result (on_unit env)) Pause)"

definition capture_framebuffer ::
  "pipeline_env \<Rightarrow> (bytes \<Rightarrow> string) \<Rightarrow> string \<Rightarrow> CaptureRequest \<Rightarrow> CaptureResult
     \<Rightarrow> CaptureResult prog" where
  "capture_framebuffer env sha256 dir request result =
     (if captureFramebuffer request \<noteq> Some False then
        (let addr = parseAddress (''0x'' @ toString16 (Num MODE_13H_ADDRESS)) in
         and_then (await (on_readMemory env) (ReadMemory addr MODE_13H_SIZE)) (\<lambda>fb.
         and_then (await (unit_result (on_unit env))
                     (WriteFile (join dir (prefix request @ ''_framebuffer.bin'')) (Binary fb)))
           (\<lambda>u. finish (result\<lparr>framebuffer := Some fb,
                          checksums := table_set ''framebuffer'' (sha256 fb) (checksums result)\<rparr>))))
      else finish result)"

definition capture_screenshot ::
  "pipeline_env \<Rightarrow> (bytes \<Rightarrow> string) \<Rightarrow> string \<Rightarrow> CaptureRequest \<Rightarrow> CaptureResult
     \<Rightarrow> CaptureResult prog" where
  "capture_screenshot env sha256 dir request result =
     (if captureScreenshot request \<noteq> Some False then
        and_then (await (on_screenshot env) Screenshot) (\<lambda>(data, format).
        and_then (await (unit_result (on_unit env))
                    (WriteFile (join dir (prefix request @ ''_screenshot.'' @ format)) (Binary data)))
          (\<lambda>u. finish (result\<lparr>screenshot := Some data, screenshotFormat := format,
                         checksums := table_set ''screenshot'' (sha256 data) (checksums result)\<rparr>)))
      else finish result)"

definition capture_registers ::
  "pipeline_env \<Rightarrow> (registers \<Rightarrow> string) \<Rightarrow> string \<Rightarrow> CaptureRequest \<Rightarrow> CaptureResult
     \<Rightarrow> CaptureResult prog" where
  "capture_registers env stringify dir request result =
     (if captureRegisters request \<noteq> Some False then
        and_then (await (on_readRegisters env) ReadRegisters) (\<lambda>regs.
        and_then (await (unit_result (on_unit env))
                    (WriteFile (join dir (prefix request @ ''_registers.json'')) (Text (stringify regs))))
          (\<lambda>u. finish (result\<lparr>result_registers := Some regs\<rparr>)))
      else finish result)"

fun capture_ranges ::
  "pipeline_env \<Rightarrow> (bytes \<Rightarrow> string) \<Rightarrow> string \<Rightarrow> MemoryRange list \<Rightarrow> CaptureResult
     \<Rightarrow> CaptureResult prog" where
  "capture_ranges env sha256 dir [] result = finish result"
| "capture_ranges env sha256 dir (r # rs) result =
     and_then (await (on_readMemory env) (ReadMemory (range_address r) (range_size r)))
       (\<lambda>data.
     and_then (await (unit_result (on_unit env))
                 (WriteFile (join dir (range_filename r)) (Binary data)))
       (\<lambda>u. capture_ranges env sha256 dir rs
               (result\<lparr>memoryDumps := table_set (range_filename r) data (memoryDumps result),
                       checksums := table_set (range_filename r) (sha256 data)
                                      (checksums result)\<rparr>)))"

definition capture_steps ::
  "pipeline_env \<Rightarrow> (bytes \<Rightarrow> string) \<Rightarrow> (registers \<Rightarrow> string) \<Rightarrow> string \<Rightarrow> CaptureRequest
     \<Rightarrow> CaptureResult \<Rightarrow> CaptureResult prog" where
  "capture_steps env sha256 stringify dir request result =
     and_then (capture_framebuffer env sha256 dir request result) (\<lambda>r1.
     and_then (capture_screenshot env sha256 dir request r1) (\<lambda>r2.
     and_then (capture_registers env stringify dir request r2) (\<lambda>r3.
     capture_ranges env sha256 dir (or_default (memoryRanges request) []) r3)))"

definition initial_result :: "pipeline_env \<Rightarrow> nat \<Rightarrow> CaptureRequest \<Rightarrow> CaptureResult" where
  "initial_result env now request =
     \<lparr> result_prefix = prefix request, framebuffer = None, screenshot = None,
       screenshotFormat = (if is_qemu env then ''ppm'' else ''bmp''), result_registers = None,
       memoryDumps = [], checksums = [], timestamp = now \<rparr>"

definition run ::
  "pipeline_env \<Rightarrow> (bytes \<Rightarrow> string) \<Rightarrow> (registers \<Rightarrow> string) \<Rightarrow> string \<Rightarrow> nat
     \<Rightarrow> CaptureRequest \<Rightarrow> CaptureResult prog" where
  "run env sha256 stringify dir now request =
     and_then (restore_snapshot env request) (\<lambda>u.
     and_then (inject_keys env request) (\<lambda>u.
     and_then (stop_guest env request) (\<lambda>u.
     and_then (capture_steps env sha256 stringify dir request (initial_result env now request))
       (\<lambda>result.
     and_then (await (unit_result (on_unit env)) Resume) (\<lambda>u. finish result)))))"

text \<open>
  For stating what a run does: entries that succeeded, entries that call \<open>resume\<close>,
  entries that call \<open>pause\<close>.
\<close>

definition ok_entry :: "entry \<Rightarrow> bool" where
  "ok_entry x = (snd x = None)"

definition is_resume :: "entry \<Rightarrow> bool" where
  "is_resume x = (fst x = Resume)"

definition is_pause :: "entry \<Rightarrow> bool" where
  "is_pause x = (fst x = Pause)"

text \<open>
  The calls of the steps that prepare the guest (snapshot, keys and the waits after them),
  and the calls of the steps that capture (memory reads, screenshot, register read, file
  writes).
\<close>

definition setup_call :: "call \<Rightarrow> bool" where
  "setup_call c =
     (case c of LoadSnapshot name \<Rightarrow> True | Sleep ms \<Rightarrow> True | SendKeys ks delay \<Rightarrow> True
      | _ \<Rightarrow> False)"

definition capture_call :: "call \<Rightarrow> bool" where
  "capture_call c =
     (case c of ReadMemory address n \<Rightarrow> True | Screenshot \<Rightarrow> True | ReadRegisters \<Rightarrow> True
      | WriteFile path content \<Rightarrow> True | _ \<Rightarrow> False)"

text \<open>
  A program is confined to a kind of calls when it makes only calls of that kind and stops
  at the first call that raises, raising that call's error: the calls it adds to the
  history all succeeded, except the last one when it raises.
\<close>

definition confined :: "(call \<Rightarrow> bool) \<Rightarrow> 'a prog \<Rightarrow> bool" where
  "confined P m =
     (\<forall>h. case m h of
            (h', Inr v) \<Rightarrow>
              (\<exists>new. h' = h @ new \<and> list_all (\<lambda>x. P (fst x) \<and> ok_entry x) new)
          | (h', Inl e) \<Rightarrow>
              (\<exists>new c. h' = h @ new @ [(c, Some e)] \<and>
                 list_all (\<lambda>x. P (fst x) \<and> ok_entry x) new \<and> P c))"

text \<open>The first two steps of \<open>run\<close>: the snapshot, then the keys.\<close>

definition setup_steps :: "pipeline_env \<Rightarrow> CaptureRequest \<Rightarrow> unit prog" where
  "setup_steps env request = and_then (restore_snapshot env request) (\<lambda>u. inject_keys env request)"

text \<open>Environments and a request for concrete runs.\<close>

definition all_succeed :: pipeline_env where
  "all_succeed =
     \<lparr> is_qemu = True, has_getGdb = True, gdb_client = True,
       on_unit = (\<lambda>h c. None),
       on_setBreakpoint = (\<lambda>h c. Inl (Error ''not used'')),
       on_waitForStop = (\<lambda>h c. Inr ''S05''),
       on_readMemory = (\<lambda>h c. Inr [1, 2, 3]),
       on_screenshot = (\<lambda>h c. Inr ([80, 54], ''ppm'')),
       on_readRegisters = (\<lambda>h c. Inr [(''eax'', 1)]) \<rparr>"

definition screenshot_fails :: pipeline_env where
  "screenshot_fails = all_succeed\<lparr> on_screenshot := (\<lambda>h c. Inl (Error ''QMP not connected'')) \<rparr>"

definition plain_request :: CaptureRequest where
  "plain_request =
     \<lparr> prefix = ''t1'', snapshot = None, breakpoint = None, keys = None, keyDelay = None,
       waitTime = None, memoryRanges = None, captureFramebuffer = None,
       captureRegisters = None, captureScreenshot = None, timeout = None \<rparr>"

definition registers_only :: CaptureRequest where
  "registers_only = plain_request\<lparr> captureFramebuffer := Some False, captureScreenshot := Some False \<rparr>"

section \<open>The session-based backend: capture\<close>

text \<open>
  \<open>DosboxBackend.capture\<close> runs one session and harvests its files; writing the generated
  configuration, script and register files is taken to succeed.
\<close>

definition dosbox_capture ::
  "dosbox_env \<Rightarrow> (bytes \<Rightarrow> string) \<Rightarrow> nat \<Rightarrow> DosboxBackend \<Rightarrow> CaptureRequest
     \<Rightarrow> error + CaptureResult" where
  "dosbox_capture env sha256 now b request =
     (let fbPath = join (capturesDir b) (prefix request @ ''_framebuffer.bin'');
          logPath = join (capturesDir b) (prefix request @ ''_debug.log'');
          confPath = join (confDir b) (''_'' @ prefix request @ ''_session.conf'')
      in case session_launch env of
           Some e \<Rightarrow> Inl e
         | None \<Rightarrow>
             Inr \<lparr> result_prefix = prefix request,
                   framebuffer = files_after env confPath fbPath,
                   screenshot = None,
                   screenshotFormat = ''bmp'',
                   result_registers =
                     (if captureRegisters request \<noteq> Some False
                      then Some (log_registers env confPath logPath) else None),
                   memoryDumps = [],
                   checksums =
                     (case files_after env confPath fbPath of
                        None \<Rightarrow> []
                      | Some fb \<Rightarrow> [(''framebuffer'', sha256 fb)]),
                   timestamp = now \<rparr>)"

text \<open>A session-based backend and an environment for concrete runs.\<close>

definition dosbox0 :: DosboxBackend where
  "dosbox0 = \<lparr> dosbox_status = Disconnected, capturesDir = ''captures'', confDir = ''conf'' \<rparr>"

definition session_env0 :: dosbox_env where
  "session_env0 =
     \<lparr> binary_found = True,
       files_after = (\<lambda>conf path. if path = ''captures/_mem_0.bin'' then Some [1, 2, 3] else None),
       log_registers = (\<lambda>conf path. [(''eax'', 1)]) \<rparr>"

section \<open>The WebSocket broker: memory watches (ws/handlers/memory-watch.ts, ws/index.ts)\<close>

text \<open>
  A watch is an object in the module's table \<open>watches\<close>, keyed by the client-chosen
  identifier. The interval timer created with it keeps what its callback captured: the
  socket, the identifier, the address text and the size. Objects live in a store, so that
  a poll in flight still refers to the watch object it started with when the table has
  changed meanwhile. A socket is a number; every call of \<open>ws.send\<close> is recorded.
\<close>

record Watch =
  watch_id :: string
  watch_address :: string
  watch_size :: int
  intervalMs :: int
  timer :: nat
  lastHash :: "string option"
  inFlight :: bool

record timer_closure =
  closure_ws :: nat
  closure_id :: string
  closure_address :: string
  closure_size :: int

datatype frame = MemoryUpdate string string nat string | BinaryFrame bytes

record broker =
  watches :: "(string \<times> nat) list"
  store :: "nat \<Rightarrow> Watch option"
  timers :: "(nat \<times> timer_closure) list"
  fresh :: nat
  watchesSuspended :: bool
  ws_sent :: "(nat \<times> frame) list"
  subscriptions :: "(string \<times> nat list) list"

definition MIN_INTERVAL_MS :: int where
  "MIN_INTERVAL_MS = 200"

definition stopMemoryWatch :: "string \<Rightarrow> broker \<Rightarrow> broker" where
  "stopMemoryWatch ident s =
     (case map_of (watches s) ident of
        None \<Rightarrow> s
      | Some r \<Rightarrow>
          (case store s r of
             None \<Rightarrow> s\<lparr>watches := table_delete ident (watches s)\<rparr>
           | Some w \<Rightarrow>
               s\<lparr>timers := filter (\<lambda>(t, c). t \<noteq> timer w) (timers s),
                  watches := table_delete ident (watches s)\<rparr>))"

definition startMemoryWatch ::
  "nat \<Rightarrow> string \<Rightarrow> string \<Rightarrow> int \<Rightarrow> int \<Rightarrow> broker \<Rightarrow> broker" where
  "startMemoryWatch ws ident address sz interval s =
     (let s1 = stopMemoryWatch ident s;
          effectiveIntervalMs = max interval MIN_INTERVAL_MS;
          n = fresh s1
      in s1\<lparr>timers := timers s1 @ [(n, \<lparr> closure_ws = ws, closure_id = ident,
                                         closure_address = address, closure_size = sz \<rparr>)],
             watches := table_set ident n (watches s1),
             store := (store s1)(n := Some \<lparr> watch_id = ident, watch_address = address,
                                            watch_size = sz, intervalMs = effectiveIntervalMs,
                                            timer = n, lastHash = None, inFlight = False \<rparr>),
             fresh := Suc n\<rparr>)"

definition stopAllWatches :: "broker \<Rightarrow> broker" where
  "stopAllWatches s = fold stopMemoryWatch (map fst (watches s)) s"

definition suspendAllWatches :: "broker \<Rightarrow> broker" where
  "suspendAllWatches s = s\<lparr>watchesSuspended := True\<rparr>"

definition invalidate :: "nat \<Rightarrow> (nat \<Rightarrow> Watch option) \<Rightarrow> (nat \<Rightarrow> Watch option)" where
  "invalidate r st = (case st r of None \<Rightarrow> st | Some w \<Rightarrow> st(r := Some (w\<lparr>lastHash := None\<rparr>)))"

definition invalidateAllWatches :: "broker \<Rightarrow> broker" where
  "invalidateAllWatches s = s\<lparr>store := fold invalidate (map snd (watches s)) (store s)\<rparr>"

definition resumeAllWatches :: "bool \<Rightarrow> broker \<Rightarrow> broker" where
  "resumeAllWatches invalidateHashes s =
     (let s1 = s\<lparr>watchesSuspended := False\<rparr>
      in if invalidateHashes then invalidateAllWatches s1 else s1)"

text \<open>
  The timer callback up to its \<open>await\<close>: a cleared timer never fires; otherwise the callback
  returns at once when the identifier has no watch, when that watch has a poll in flight,
  or when the watches are suspended; else it marks the watch and starts reading memory.
  The poll in flight is the closure together with the watch object it found.
\<close>

type_synonym poll = "timer_closure \<times> nat"

definition tick :: "nat \<Rightarrow> broker \<Rightarrow> broker \<times> poll option" where
  "tick t s =
     (case map_of (timers s) t of
        None \<Rightarrow> (s, None)
      | Some c \<Rightarrow>
          (case map_of (watches s) (closure_id c) of
             None \<Rightarrow> (s, None)
           | Some r \<Rightarrow>
               (case store s r of
                  None \<Rightarrow> (s, None)
                | Some w \<Rightarrow>
                    if inFlight w \<or> watchesSuspended s then (s, None)
                    else (s\<lparr>store := (store s)(r := Some (w\<lparr>inFlight := True\<rparr>))\<rparr>,
                          Some (c, r)))))"

text \<open>
  The rest of the callback, once \<open>backend.readMemory\<close> has settled with bytes or with an
  error: the digest is compared with the \<open>lastHash\<close> of the watch object the poll started
  with; the \<open>finally\<close> block clears \<open>inFlight\<close> of the watch the table holds now.
\<close>

definition clear_inFlight :: "string \<Rightarrow> broker \<Rightarrow> broker" where
  "clear_inFlight ident s =
     (case map_of (watches s) ident of
        None \<Rightarrow> s
      | Some r \<Rightarrow>
          (case store s r of
             None \<Rightarrow> s
           | Some w \<Rightarrow> s\<lparr>store := (store s)(r := Some (w\<lparr>inFlight := False\<rparr>))\<rparr>))"

definition complete :: "(bytes \<Rightarrow> string) \<Rightarrow> poll \<Rightarrow> error + bytes \<Rightarrow> broker \<Rightarrow> broker" where
  "complete sha256 p result s =
     (case p of (c, r) \<Rightarrow>
        clear_inFlight (closure_id c)
          (case result of
             Inl e \<Rightarrow> s
           | Inr data \<Rightarrow>
               (case store s r of
                  None \<Rightarrow> s
                | Some w \<Rightarrow>
                    if Some (sha256 data) \<noteq> lastHash w
                    then s\<lparr>store := (store s)(r := Some (w\<lparr>lastHash := Some (sha256 data)\<rparr>)),
                           ws_sent := ws_sent s @
                             [(closure_ws c,
                               MemoryUpdate (closure_id c) (closure_address c) (length data)
                                 (sha256 data)),
                              (closure_ws c, BinaryFrame data)]\<rparr>
                    else s)))"

text \<open>
  The broker's listeners on the backend's events, and its handlers for a socket that
  closes and for the server that closes. The listeners are the three that
  \<open>ensureSnapshotHooks\<close> registers on the backend in use: \<open>snapshot:loading\<close> suspends the
  watches, \<open>snapshot:loaded\<close> and \<open>snapshot:load-failed\<close> resume them with their hashes
  invalidated; a status event has no listener here.
\<close>

definition on_backend_event :: "backend_event \<Rightarrow> broker \<Rightarrow> broker" where
  "on_backend_event ev s =
     (case ev of
        SnapshotLoading name \<Rightarrow> suspendAllWatches s
      | SnapshotLoaded name \<Rightarrow> resumeAllWatches True s
      | SnapshotLoadFailed name msg \<Rightarrow> resumeAllWatches True s
      | StatusEvent st \<Rightarrow> s)"

definition removeClient :: "nat \<Rightarrow> (string \<times> nat list) list \<Rightarrow> (string \<times> nat list) list" where
  "removeClient ws subs = map (\<lambda>(channel, subscribers). (channel, removeAll ws subscribers)) subs"

definition on_ws_close :: "nat \<Rightarrow> broker \<Rightarrow> broker" where
  "on_ws_close ws s = s\<lparr>subscriptions := removeClient ws (subscriptions s)\<rparr>"

definition on_server_close :: "broker \<Rightarrow> broker" where
  "on_server_close s = stopAllWatches s"

text \<open>What can happen to the broker, one event at a time.\<close>

datatype broker_event =
    Watch_msg nat string string int int
  | Unwatch_msg string
  | Backend_event backend_event
  | Timer_fires nat
  | Poll_settles poll "error + bytes"
  | Socket_closes nat
  | Server_closes

definition step :: "(bytes \<Rightarrow> string) \<Rightarrow> broker_event \<Rightarrow> broker \<Rightarrow> broker" where
  "step sha256 ev s =
     (case ev of
        Watch_msg ws ident address sz interval \<Rightarrow> startMemoryWatch ws ident address sz interval s
      | Unwatch_msg ident \<Rightarrow> stopMemoryWatch ident s
      | Backend_event e \<Rightarrow> on_backend_event e s
      | Timer_fires t \<Rightarrow> fst (tick t s)
      | Poll_settles p result \<Rightarrow> complete sha256 p result s
      | Socket_closes ws \<Rightarrow> on_ws_close ws s
      | Server_closes \<Rightarrow> on_server_close s)"

definition steps :: "(bytes \<Rightarrow> string) \<Rightarrow> broker_event list \<Rightarrow> broker \<Rightarrow> broker" where
  "steps sha256 evs s = fold (step sha256) evs s"

definition broker0 :: broker where
  "broker0 = \<lparr> watches = [], store = (\<lambda>r. None), timers = [], fresh = 0,
               watchesSuspended = False, ws_sent = [], subscriptions = [(''memory'', [1])] \<rparr>"

text \<open>
  For stating what the watches do: a poll that read bytes for a given watch object, the
  two frames of a \<open>memory:update\<close>, a watch object whose digest is cleared, and a table
  whose entries all refer to allocated objects.
\<close>

definition reports_on :: "nat \<Rightarrow> broker_event \<Rightarrow> bool" where
  "reports_on r ev =
     (case ev of
        Poll_settles p result \<Rightarrow> (case result of Inl e \<Rightarrow> False | Inr data \<Rightarrow> snd p = r)
      | _ \<Rightarrow> False)"

definition update_frames :: "(bytes \<Rightarrow> string) \<Rightarrow> timer_closure \<Rightarrow> bytes \<Rightarrow> (nat \<times> frame) list" where
  "update_frames sha256 c data =
     [(closure_ws c,
       MemoryUpdate (closure_id c) (closure_address c) (length data) (sha256 data)),
      (closure_ws c, BinaryFrame data)]"

definition unreported :: "nat \<Rightarrow> broker \<Rightarrow> bool" where
  "unreported r s = (case store s r of None \<Rightarrow> False | Some w \<Rightarrow> lastHash w = None \<and> r < fresh s)"

definition well_formed :: "broker \<Rightarrow> bool" where
  "well_formed s = list_all (\<lambda>(ident, r). r < fresh s \<and> store s r \<noteq> None) (watches s)"

text \<open>A client, its watch and some histories for concrete runs.\<close>

definition closure0 :: timer_closure where
  "closure0 = \<lparr> closure_ws = 1, closure_id = ''w'', closure_address = ''0xB8000'', closure_size = 4 \<rparr>"

definition watched_once :: "broker_event list" where
  "watched_once =
     [Watch_msg 1 ''w'' ''0xB8000'' 4 50, Timer_fires 0,
      Poll_settles (closure0, 0) (Inr [1, 2, 3, 4])]"

definition watch_then_disconnect :: broker where
  "watch_then_disconnect =
     steps hexdump [Watch_msg 1 ''w'' ''0xB8000'' 4 200, Socket_closes 1] broker0"

definition watching :: broker where
  "watching = steps hexdump watched_once broker0"

definition loading :: broker where
  "loading = steps hexdump (watched_once @ [Backend_event (SnapshotLoading ''s1'')]) broker0"

section \<open>Properties of the address module\<close>

subsection \<open>ToInt32 and the masks\<close>

lemma toInt32_id: "- (2 ^ 31) \<le> n \<Longrightarrow> n < 2 ^ 31 \<Longrightarrow> toInt32 (Num n) = n"
  by (simp add: toInt32_def)



lemma and_ffff: "(x :: int) AND 65535 = x mod 65536"
proof -
  have "x AND mask 16 = take_bit 16 x" by (simp add: take_bit_eq_mask)
  then show ?thesis by (simp add: take_bit_eq_mod mask_eq_exp_minus_1)
qed







subsection \<open>Printing and reading hexadecimal fields\<close>

lemma lt16: "(d::nat) < 16 \<Longrightarrow> d \<in> {0,1,2,3,4,5,6,7,8,9,10,11,12,13,14,15}"
  by (simp only: insert_iff empty_iff) arith

lemma hexdigit_upper:
  assumes "d < 16"
  shows "digit_val (upper_char (hexdigit d)) = Some d"
  using lt16 [OF assms]
  by (elim insertE emptyE) (simp_all add: hexdigit_def upper_char_def digit_val_def)

lemma is_digit_facts:
  assumes "is_digit 16 c"
  shows "c \<noteq> CHR '':''" "c \<noteq> CHR ''x''" "c \<noteq> CHR ''X''" "c \<noteq> CHR ''-''" "c \<noteq> CHR ''+''" "\<not> is_space c"
  using assms by (auto simp: is_digit_def digit_val_def is_space_def Let_def split: if_splits)

lemma is_digit_hexdigit: "is_digit 16 (upper_char (hexdigit d))"
proof -
  have "d mod 16 < 16" by simp
  then have "digit_val (upper_char (hexdigit (d mod 16))) = Some (d mod 16)"
    by (rule hexdigit_upper)
  moreover have "hexdigit (d mod 16) = hexdigit d" by (simp add: hexdigit_def)
  ultimately show ?thesis by (simp add: is_digit_def)
qed

lemma digit_nat_hexdigit: "d < 16 \<Longrightarrow> digit_nat (upper_char (hexdigit d)) = d"
  by (simp add: digit_nat_def hexdigit_upper)

lemma digits16_all: "\<forall>c \<in> set (toUpperCase (digits16 n)). is_digit 16 c"
proof (induction n rule: digits16.induct)
  case (1 n)
  show ?case
  proof (cases "n < 16")
    case True
    then show ?thesis by (simp add: digits16.simps [of n] toUpperCase_def is_digit_hexdigit)
  next
    case False
    with 1 show ?thesis
      by (simp add: digits16.simps [of n] toUpperCase_def is_digit_hexdigit)
  qed
qed

lemma digits16_value: "digits_value 16 (toUpperCase (digits16 n)) = n"
proof (induction n rule: digits16.induct)
  case (1 n)
  show ?case
  proof (cases "n < 16")
    case True
    then show ?thesis
      by (simp add: digits16.simps [of n] toUpperCase_def digits_value_def digit_nat_hexdigit)
  next
    case False
    with 1 have "digits_value 16 (toUpperCase (digits16 (n div 16))) = n div 16" by simp
    with False show ?thesis
      by (simp add: digits16.simps [of n] toUpperCase_def digits_value_def digit_nat_hexdigit)
  qed
qed

lemma digits16_nonempty: "digits16 n \<noteq> []"
  by (subst digits16.simps) simp

lemma digits_value_zeros: "digits_value 16 (replicate k CHR ''0'' @ s) = digits_value 16 s"
proof -
  have "foldl (\<lambda>a c. a * 16 + digit_nat c) 0 (replicate k CHR ''0'') = 0"
    by (induction k) (simp_all add: digit_nat_def digit_val_def)
  then show ?thesis by (simp add: digits_value_def)
qed

lemma hexfield_eq: "hexfield n = replicate (4 - length (digits16 n)) CHR ''0'' @ toUpperCase (digits16 n)"
  by (simp add: hexfield_def padStart_def toString16_def toUpperCase_def)

lemma hexfield_digits: "\<forall>c \<in> set (hexfield n). is_digit 16 c"
proof -
  have "is_digit 16 CHR ''0''" by (simp add: is_digit_def digit_val_def)
  then show ?thesis using digits16_all [of n] by (auto simp: hexfield_eq)
qed

lemma hexfield_nonempty: "hexfield n \<noteq> []"
  by (simp add: hexfield_eq toUpperCase_def digits16_nonempty)

lemma hexfield_value: "digits_value 16 (hexfield n) = n"
  by (simp add: hexfield_eq digits_value_zeros digits16_value)

lemma parseInt_hex_digits:
  assumes "s \<noteq> []" and "\<forall>c \<in> set s. is_digit 16 c"
  shows "parseInt s 16 = Num (int (digits_value 16 s))"
proof -
  obtain c r where s: "s = c # r" using assms(1) by (cases s) auto
  have c: "is_digit 16 c" using assms(2) s by simp
  have dw: "dropWhile is_space s = s" using is_digit_facts(6)[OF c] s by simp
  have nox: "\<not> startsWith s ''0x''" "\<not> startsWith s ''0X''"
  proof -
    show "\<not> startsWith s ''0x''"
    proof
      assume "startsWith s ''0x''"
      then have "CHR ''x'' \<in> set s" by (cases s; cases "tl s") (auto simp: startsWith_def)
      then show False using assms(2) is_digit_facts(2) by blast
    qed
    show "\<not> startsWith s ''0X''"
    proof
      assume "startsWith s ''0X''"
      then have "CHR ''X'' \<in> set s" by (cases s; cases "tl s") (auto simp: startsWith_def)
      then show False using assms(2) is_digit_facts(3) by blast
    qed
  qed
  have tw: "takeWhile (is_digit 16) s = s" using assms(2) by (simp add: takeWhile_eq_all_conv)
  have sign: "c \<noteq> CHR ''-''" "c \<noteq> CHR ''+''" using is_digit_facts[OF c] by simp_all
  show ?thesis
    unfolding parseInt_def dw
    using sign nox tw assms(1) by (simp add: s Let_def)
qed

lemma split_on_no_sep: "c \<notin> set s \<Longrightarrow> split_on c s = [s]"
  by (induction s) auto

lemma split_on_append: "c \<notin> set a \<Longrightarrow> split_on c (a @ c # b) = a # split_on c b"
  by (induction a) auto

lemma fmt: "0 \<le> seg \<Longrightarrow> 0 \<le> off \<Longrightarrow> formatSegOff (Num seg) (Num off) = hexfield (nat seg) @ CHR '':'' # hexfield (nat off)"
  by (simp add: formatSegOff_def hexfield_def)

subsection \<open>Linear literals\<close>







lemma digit10_value: "d < 10 \<Longrightarrow> digit_nat (hexdigit d) = d"
proof -
  assume "d < 10"
  then have "d \<in> {0,1,2,3,4,5,6,7,8,9}"
    by (simp only: insert_iff empty_iff) arith
  then show ?thesis
    by (elim insertE emptyE) (simp_all add: hexdigit_def digit_nat_def digit_val_def)
qed

lemma digits10_value: "digits_value 10 (digits10 n) = n"
proof (induction n rule: digits10.induct)
  case (1 n)
  show ?case
  proof (cases "n < 10")
    case True
    then show ?thesis
      by (simp add: digits10.simps [of n] digits_value_def digit10_value)
  next
    case False
    with 1 have "digits_value 10 (digits10 (n div 10)) = n div 10" by simp
    with False show ?thesis
      by (simp add: digits10.simps [of n] digits_value_def digit10_value)
  qed
qed










subsection \<open>Claim C1: a linear address and its segment:offset pair\<close>




subsection \<open>Claim C2: formatting a pair and parsing it back\<close>

lemma parseAddress_formatSegOff:
  assumes "0 \<le> seg" and "0 \<le> off"
  shows "parseAddress (formatSegOff (Num seg) (Num off))
      = \<lparr> linear = segOffToLinear (Num seg) (Num off),
          segOff = \<lparr> segment = Num seg, offset = Num off \<rparr> \<rparr>"
proof -
  let ?a = "hexfield (nat seg)" and ?b = "hexfield (nat off)"
  have na: "CHR '':'' \<notin> set ?a"
    using hexfield_digits is_digit_facts(1) by blast
  have nb: "CHR '':'' \<notin> set ?b"
    using hexfield_digits is_digit_facts(1) by blast
  have f: "formatSegOff (Num seg) (Num off) = ?a @ CHR '':'' # ?b"
    using assms by (simp add: fmt)
  have sp: "split_on CHR '':'' (?a @ CHR '':'' # ?b) = [?a, ?b]"
    by (simp add: split_on_append [OF na] split_on_no_sep [OF nb])
  have pa: "parseInt ?a 16 = Num seg"
    using assms by (simp add: parseInt_hex_digits hexfield_nonempty hexfield_digits hexfield_value)
  have pb: "parseInt ?b 16 = Num off"
    using assms by (simp add: parseInt_hex_digits hexfield_nonempty hexfield_digits hexfield_value)
  show ?thesis
    by (simp add: f parseAddress_def sp parseInt_piece_def pa pb Let_def)
qed

lemma segOffToLinear_in_range:
  assumes "0 \<le> seg" and "seg < 2 ^ 16" and "0 \<le> off" and "off < 2 ^ 16"
  shows "segOffToLinear (Num seg) (Num off) = Num (seg * 16 + off)"
    and "js_add (js_shl (Num seg) 4) (Num off) = Num (seg * 16 + off)"
proof -
  have m1: "seg mod 65536 = seg" "off mod 65536 = off"
    using assms by simp_all
  have i1: "toInt32 (Num seg) = seg" "toInt32 (Num off) = off"
    "toInt32 (Num (seg * 16)) = seg * 16"
    using assms by (simp_all add: toInt32_def)
  show "segOffToLinear (Num seg) (Num off) = Num (seg * 16 + off)"
    by (simp add: segOffToLinear_def js_and_def js_shl_def js_add_def i1 and_ffff m1 toInt32_id)
  show "js_add (js_shl (Num seg) 4) (Num off) = Num (seg * 16 + off)"
    by (simp add: js_shl_def js_add_def i1)
qed

text \<open>
  Claim C2. For every pair \<open>(seg, off)\<close> with \<open>0 \<le> seg < 2^16\<close> and \<open>0 \<le> off < 2^16\<close>,
  \<open>parseAddress (formatSegOff seg off)\<close> has the linear address \<open>(seg << 4) + off\<close>, which
  is \<open>16 * seg + off\<close>; the pair read back is \<open>(seg, off)\<close> itself.
\<close>

theorem C2_parse_format_linear:
  assumes "0 \<le> seg" and "seg < 2 ^ 16" and "0 \<le> off" and "off < 2 ^ 16"
  shows "linear (parseAddress (formatSegOff (Num seg) (Num off)))
           = js_add (js_shl (Num seg) 4) (Num off) \<and>
         linear (parseAddress (formatSegOff (Num seg) (Num off))) = Num (seg * 16 + off) \<and>
         segOff (parseAddress (formatSegOff (Num seg) (Num off)))
           = \<lparr> segment = Num seg, offset = Num off \<rparr>"
  using assms
  by (simp add: parseAddress_formatSegOff segOffToLinear_in_range)

theorem C2_parse_format_witness:
  "(0::int) \<le> 40960 \<and> (40960::int) < 2 ^ 16 \<and> (0::int) \<le> 16 \<and> (16::int) < 2 ^ 16 \<and>
   linear (parseAddress (formatSegOff (Num 40960) (Num 16))) = Num 655376"
proof -
  have h: "(0::int) \<le> 40960" "(40960::int) < 2 ^ 16" "(0::int) \<le> 16" "(16::int) < 2 ^ 16"
    by simp_all
  from C2_parse_format_linear [OF h]
  have c: "linear (parseAddress (formatSegOff (Num 40960) (Num 16))) = Num (40960 * 16 + 16)"
    by blast
  from h c show ?thesis
    by simp
qed

section \<open>Properties of the chunked memory read\<close>

lemma chunk_lt_iff: "k < num_chunks len \<longleftrightarrow> int k * CHUNK_SIZE < len"
  unfolding num_chunks_def CHUNK_SIZE_def by auto

lemma length_requests: "length (requests addr len) = num_chunks len"
  by (simp add: requests_def)

lemma take_Suc_requests:
  assumes "k < num_chunks len"
  shows "take (Suc k) (requests addr len)
         = take k (requests addr len) @ [read_request addr len (int k * CHUNK_SIZE)]"
  using assms by (simp add: take_Suc_conv_app_nth length_requests) (simp add: requests_def)

lemma loop_step_ok:
  assumes "k < num_chunks len" and "reply_ok (reply stub sent0 addr len k)"
  shows "readMemory_loop True stub addr len (int k * CHUNK_SIZE) (sent0 @ take k (requests addr len)) res
       = readMemory_loop True stub addr len (int (Suc k) * CHUNK_SIZE)
           (sent0 @ take (Suc k) (requests addr len)) (res @ [decoded (reply stub sent0 addr len k)])"
proof -
  have lt: "int k * CHUNK_SIZE < len" using assms(1) by (simp add: chunk_lt_iff)
  obtain resp where r: "reply stub sent0 addr len k = Inr resp" and e: "\<not> startsWith resp ''E''"
    using assms(2) by (auto simp: reply_ok_def split: sum.splits)
  have st: "stub (sent0 @ take k (requests addr len) @ [read_request addr len (int k * CHUNK_SIZE)]) = Inr resp"
    using r by (simp add: reply_def take_Suc_requests [OF assms(1)])
  have eq: "int (Suc k) * CHUNK_SIZE = int k * CHUNK_SIZE + CHUNK_SIZE"
    by (simp add: algebra_simps)
  show ?thesis
    unfolding eq
    by (subst readMemory_loop.simps)
       (simp add: lt command_def st e r decoded_def take_Suc_requests [OF assms(1)])
qed

lemma loop_step_bad:
  assumes "k < num_chunks len" and "\<not> reply_ok (reply stub sent0 addr len k)"
  shows "readMemory_loop True stub addr len (int k * CHUNK_SIZE) (sent0 @ take k (requests addr len)) res
       = (sent0 @ take (Suc k) (requests addr len), Inl (read_failure addr k (reply stub sent0 addr len k)))"
proof -
  have lt: "int k * CHUNK_SIZE < len" using assms(1) by (simp add: chunk_lt_iff)
  have st: "stub (sent0 @ take k (requests addr len) @ [read_request addr len (int k * CHUNK_SIZE)])
            = reply stub sent0 addr len k"
    by (simp add: reply_def take_Suc_requests [OF assms(1)])
  show ?thesis
    using assms(2)
    by (subst readMemory_loop.simps)
       (auto simp: lt command_def st reply_ok_def read_failure_def take_Suc_requests [OF assms(1)]
             split: sum.splits)
qed

lemma loop_end:
  "readMemory_loop c stub addr len (int (num_chunks len) * CHUNK_SIZE) sent res = (sent, Inr (concat res))"
proof -
  have "\<not> int (num_chunks len) * CHUNK_SIZE < len"
    using chunk_lt_iff [of "num_chunks len" len] by simp
  then show ?thesis by (subst readMemory_loop.simps) simp
qed

lemma loop_all_ok:
  assumes ok: "\<forall>k < num_chunks len. reply_ok (reply stub sent0 addr len k)"
    and "i \<le> num_chunks len"
  shows "readMemory_loop True stub addr len (int i * CHUNK_SIZE) (sent0 @ take i (requests addr len))
           (map (\<lambda>k. decoded (reply stub sent0 addr len k)) [0..<i])
       = (sent0 @ requests addr len,
          Inr (concat (map (\<lambda>k. decoded (reply stub sent0 addr len k)) [0..<num_chunks len])))"
  using assms(2)
proof (induction "num_chunks len - i" arbitrary: i)
  case 0
  then have "i = num_chunks len" by simp
  then show ?case by (simp add: loop_end length_requests)
next
  case (Suc d)
  then have lt: "i < num_chunks len" by simp
  have "num_chunks len - Suc i = d" using Suc.hyps(2) by simp
  then have ih: "readMemory_loop True stub addr len (int (Suc i) * CHUNK_SIZE)
       (sent0 @ take (Suc i) (requests addr len))
       (map (\<lambda>k. decoded (reply stub sent0 addr len k)) [0..<Suc i])
     = (sent0 @ requests addr len,
          Inr (concat (map (\<lambda>k. decoded (reply stub sent0 addr len k)) [0..<num_chunks len])))"
    using Suc.hyps(1) [of "Suc i"] lt by simp
  show ?case
    using loop_step_ok [OF lt, of stub sent0 addr] ok lt ih by simp
qed

lemma loop_first_bad:
  assumes ok: "\<forall>j < k. reply_ok (reply stub sent0 addr len j)"
    and bad: "\<not> reply_ok (reply stub sent0 addr len k)"
    and k: "k < num_chunks len"
    and "i \<le> k"
  shows "readMemory_loop True stub addr len (int i * CHUNK_SIZE) (sent0 @ take i (requests addr len)) res
       = (sent0 @ take (Suc k) (requests addr len), Inl (read_failure addr k (reply stub sent0 addr len k)))"
  using assms(4)
proof (induction "k - i" arbitrary: i res)
  case 0
  then have "i = k" by simp
  then show ?case using loop_step_bad [OF k bad] by simp
next
  case (Suc d)
  then have lt: "i < k" by simp
  then have lt': "i < num_chunks len" using k by simp
  have "k - Suc i = d" using Suc.hyps(2) by simp
  then have ih: "\<And>res. readMemory_loop True stub addr len (int (Suc i) * CHUNK_SIZE)
       (sent0 @ take (Suc i) (requests addr len)) res
     = (sent0 @ take (Suc k) (requests addr len), Inl (read_failure addr k (reply stub sent0 addr len k)))"
    using Suc.hyps(1) [of "Suc i"] lt by simp
  show ?case
    using loop_step_ok [OF lt', of stub sent0 addr] ok lt ih by simp
qed

lemma num_chunks_9000: "num_chunks 9000 = 3"
  by (simp add: num_chunks_def CHUNK_SIZE_def)

lemma reqs_9000: "requests (Num 655360) 9000 = [''ma0000,1000'', ''ma1000,1000'', ''ma2000,328'']"
  by (simp add: requests_def num_chunks_9000 upt_rec read_request_def js_add_def CHUNK_SIZE_def toString16_def
      digits16.simps hexdigit_def)

text \<open>
  Claim C6. \<open>readMemory(addr, length)\<close> on a connected client sends one request
  \<open>m<addr + 4096 k>,<min 4096 (length - 4096 k)>\<close> (both in hexadecimal) for each chunk
  \<open>k = 0, 1, ...\<close> below \<open>length / 4096\<close> rounded up, in increasing order. When every reply is
  accepted the result is the concatenation, in order, of the decoded replies. At the first
  reply that starts with \<open>E\<close> it stops and raises \<open>ProtocolError\<close> with the address of that
  chunk in the message. For a length of \<open>0\<close> (or less) it returns the empty buffer and sends
  nothing.
\<close>

theorem C6_readMemory_chunks:
  "requests addr len
     = map (\<lambda>k. ''m'' @ toString16 (js_add addr (Num (int k * 4096))) @ '','' @
                 toString16 (Num (min 4096 (len - int k * 4096))))
           [0..<nat ((len + 4095) div 4096)] \<and>
   (len \<le> 0 \<longrightarrow> gdb_readMemory connected stub sent addr len = (sent, Inr [])) \<and>
   ((\<forall>k < num_chunks len. reply_ok (reply stub sent addr len k)) \<longrightarrow>
      gdb_readMemory True stub sent addr len
        = (sent @ requests addr len,
           Inr (concat (map (\<lambda>k. decoded (reply stub sent addr len k)) [0..<num_chunks len])))) \<and>
   (k < num_chunks len \<and> (\<forall>j < k. reply_ok (reply stub sent addr len j)) \<and>
    reply stub sent addr len k = Inr resp \<and> startsWith resp ''E'' \<longrightarrow>
      gdb_readMemory True stub sent addr len
        = (sent @ take (Suc k) (requests addr len),
           Inl (ProtocolError (''GDB memory read error at 0x'' @
                  toString16 (js_add addr (Num (int k * 4096))) @ '': '' @ resp))))"
proof (intro conjI impI)
  show "requests addr len
     = map (\<lambda>k. ''m'' @ toString16 (js_add addr (Num (int k * 4096))) @ '','' @
                 toString16 (Num (min 4096 (len - int k * 4096))))
           [0..<nat ((len + 4095) div 4096)]"
    by (simp add: requests_def num_chunks_def read_request_def CHUNK_SIZE_def add.commute)
next
  assume "len \<le> 0"
  then show "gdb_readMemory connected stub sent addr len = (sent, Inr [])"
    unfolding gdb_readMemory_def by (subst readMemory_loop.simps) simp
next
  assume "\<forall>k < num_chunks len. reply_ok (reply stub sent addr len k)"
  from loop_all_ok [OF this, of 0]
  show "gdb_readMemory True stub sent addr len
        = (sent @ requests addr len,
           Inr (concat (map (\<lambda>k. decoded (reply stub sent addr len k)) [0..<num_chunks len])))"
    by (simp add: gdb_readMemory_def)
next
  assume a: "k < num_chunks len \<and> (\<forall>j < k. reply_ok (reply stub sent addr len j)) \<and>
    reply stub sent addr len k = Inr resp \<and> startsWith resp ''E''"
  then have bad: "\<not> reply_ok (reply stub sent addr len k)"
    by (simp add: reply_ok_def)
  from a have ok: "\<forall>j < k. reply_ok (reply stub sent addr len j)" and k: "k < num_chunks len"
    by simp_all
  from loop_first_bad [OF ok bad k, of 0 "[]"] a
  show "gdb_readMemory True stub sent addr len
        = (sent @ take (Suc k) (requests addr len),
           Inl (ProtocolError (''GDB memory read error at 0x'' @
                  toString16 (js_add addr (Num (int k * 4096))) @ '': '' @ resp)))"
    by (simp add: gdb_readMemory_def read_failure_def CHUNK_SIZE_def)
qed

theorem C6_readMemory_chunks_witness:
  "(0::int) \<le> 0 \<and> gdb_readMemory True stub_ok [] (Num 655360) 0 = ([], Inr []) \<and>
   num_chunks 9000 = 3 \<and>
   reply_ok (reply stub_ok [] (Num 655360) 9000 0) \<and>
   reply_ok (reply stub_ok [] (Num 655360) 9000 1) \<and>
   reply_ok (reply stub_ok [] (Num 655360) 9000 2) \<and>
   gdb_readMemory True stub_ok [] (Num 655360) 9000
     = ([''ma0000,1000'', ''ma1000,1000'', ''ma2000,328''], Inr [10, 255, 10, 255, 10, 255]) \<and>
   (1::nat) < num_chunks 9000 \<and>
   reply_ok (reply stub_bad_second [] (Num 655360) 9000 0) \<and>
   reply stub_bad_second [] (Num 655360) 9000 1 = Inr ''E14'' \<and> startsWith ''E14'' ''E'' \<and>
   gdb_readMemory True stub_bad_second [] (Num 655360) 9000
     = ([''ma0000,1000'', ''ma1000,1000''],
        Inl (ProtocolError ''GDB memory read error at 0xa1000: E14''))"
proof -
  note t0 = C6_readMemory_chunks [of "Num 655360" 0 True stub_ok "[]" 0 "''''"]
  note t1 = C6_readMemory_chunks [of "Num 655360" 9000 True stub_ok "[]" 0 "''''"]
  note t2 = C6_readMemory_chunks [of "Num 655360" 9000 True stub_bad_second "[]" 1 "''E14''"]
  have h1: "\<forall>k < num_chunks 9000. reply_ok (reply stub_ok [] (Num 655360) 9000 k)"
    by (simp add: reply_def stub_ok_def reply_ok_def startsWith_def)
  have h2: "(1::nat) < num_chunks 9000"
    by (simp add: num_chunks_9000)
  have h3: "\<forall>j < 1. reply_ok (reply stub_bad_second [] (Num 655360) 9000 j)"
    by (simp add: reply_def stub_bad_second_def reply_ok_def startsWith_def reqs_9000)
  have h4: "reply stub_bad_second [] (Num 655360) 9000 1 = Inr ''E14''"
    by (simp add: reply_def stub_bad_second_def reqs_9000)
  have h5: "startsWith ''E14'' ''E''"
    by (simp add: startsWith_def)
  have d: "decoded (reply stub_ok [] (Num 655360) 9000 k) = [10, 255]" for k
    by (simp add: decoded_def reply_def stub_ok_def is_digit_def digit_val_def digit_nat_def)
  from t0 have c0: "gdb_readMemory True stub_ok [] (Num 655360) 0 = ([], Inr [])"
    by simp
  from t1 h1 have "gdb_readMemory True stub_ok [] (Num 655360) 9000
     = ([] @ requests (Num 655360) 9000,
           Inr (concat (map (\<lambda>k. decoded (reply stub_ok [] (Num 655360) 9000 k)) [0..<num_chunks 9000])))"
    by blast
  then have c1: "gdb_readMemory True stub_ok [] (Num 655360) 9000
     = ([''ma0000,1000'', ''ma1000,1000'', ''ma2000,328''], Inr [10, 255, 10, 255, 10, 255])"
    by (simp add: d num_chunks_9000 reqs_9000 upt_rec)
  from t2 h2 h3 h4 h5 have "gdb_readMemory True stub_bad_second [] (Num 655360) 9000
        = ([] @ take (Suc 1) (requests (Num 655360) 9000),
           Inl (ProtocolError (''GDB memory read error at 0x'' @
                  toString16 (js_add (Num 655360) (Num (int 1 * 4096))) @ '': '' @ ''E14'')))"
    by blast
  then have c2: "gdb_readMemory True stub_bad_second [] (Num 655360) 9000
     = ([''ma0000,1000'', ''ma1000,1000''],
        Inl (ProtocolError ''GDB memory read error at 0xa1000: E14''))"
    by (simp add: reqs_9000 js_add_def toString16_def digits16.simps hexdigit_def)
  from h1 have g1: "reply_ok (reply stub_ok [] (Num 655360) 9000 0)"
    "reply_ok (reply stub_ok [] (Num 655360) 9000 1)"
    "reply_ok (reply stub_ok [] (Num 655360) 9000 2)"
    by (simp_all add: num_chunks_9000)
  from h3 have g3: "reply_ok (reply stub_bad_second [] (Num 655360) 9000 0)"
    by simp
  from c0 g1 c1 h2 g3 h4 h5 c2 show ?thesis
    by (simp add: num_chunks_9000)
qed

section \<open>Properties of the golden comparison\<close>

lemma first_diff_from_Some:
  "first_diff_from g a i = Some j \<Longrightarrow>
     i \<le> j \<and> j < min (length g) (length a) \<and> g ! j \<noteq> a ! j \<and> (\<forall>k. i \<le> k \<and> k < j \<longrightarrow> g ! k = a ! k)"
proof (induction g a i rule: first_diff_from.induct)
  case (1 g a i)
  show ?case
  proof (cases "i < min (length g) (length a) \<and> g ! i = a ! i")
    case True
    then have "first_diff_from g a (Suc i) = Some j"
      using "1.prems" by (subst (asm) first_diff_from.simps) simp
    with 1 True have ih: "Suc i \<le> j \<and> j < min (length g) (length a) \<and> g ! j \<noteq> a ! j \<and>
       (\<forall>k. Suc i \<le> k \<and> k < j \<longrightarrow> g ! k = a ! k)" by simp
    show ?thesis
    proof (intro conjI allI impI)
      fix k assume "i \<le> k \<and> k < j"
      then show "g ! k = a ! k" using ih True by (cases "k = i") auto
    qed (use ih in auto)
  next
    case False
    then show ?thesis
      using "1.prems" by (subst (asm) first_diff_from.simps) (auto split: if_splits)
  qed
qed

lemma first_diff_from_None:
  "first_diff_from g a i = None \<Longrightarrow>
     (\<forall>k. i \<le> k \<and> k < min (length g) (length a) \<longrightarrow> g ! k = a ! k)"
proof (induction g a i rule: first_diff_from.induct)
  case (1 g a i)
  show ?case
  proof (cases "i < min (length g) (length a)")
    case True
    then have eq: "g ! i = a ! i" and rec: "first_diff_from g a (Suc i) = None"
      using "1.prems" by (subst (asm) first_diff_from.simps; simp split: if_splits)+
    with 1 True have ih: "\<forall>k. Suc i \<le> k \<and> k < min (length g) (length a) \<longrightarrow> g ! k = a ! k"
      by simp
    show ?thesis
    proof (intro allI impI)
      fix k assume "i \<le> k \<and> k < min (length g) (length a)"
      then show "g ! k = a ! k" using ih eq by (cases "k = i") auto
    qed
  next
    case False
    then show ?thesis by auto
  qed
qed

lemma first_diff_from_least:
  assumes "i < min (length g) (length a)" and "g ! i \<noteq> a ! i" and "\<forall>k<i. g ! k = a ! k"
  shows "first_diff_from g a 0 = Some i"
proof (cases "first_diff_from g a 0")
  case None
  from first_diff_from_None [OF None] assms(1,2) show ?thesis by auto
next
  case (Some j)
  from first_diff_from_Some [OF Some]
  have j: "j < min (length g) (length a)" "g ! j \<noteq> a ! j" "\<forall>k<j. g ! k = a ! k" by auto
  have "\<not> j < i" using assms(3) j(2) by auto
  moreover have "\<not> i < j" using j(3) assms(2) by auto
  ultimately have "j = i" by simp
  with Some show ?thesis by simp
qed

lemma first_diff_from_prefix:
  assumes "\<forall>k < min (length g) (length a). g ! k = a ! k"
  shows "first_diff_from g a 0 = None"
proof (cases "first_diff_from g a 0")
  case None
  then show ?thesis .
next
  case (Some j)
  from first_diff_from_Some [OF Some] assms show ?thesis by auto
qed

lemma equal_length_differ:
  assumes "length g = length a" and "g \<noteq> a"
  shows "\<exists>i. first_diff_from g a 0 = Some i \<and> i < length g \<and> g ! i \<noteq> a ! i"
proof (cases "first_diff_from g a 0")
  case None
  from first_diff_from_None [OF None] assms(1) have "\<forall>k<length g. g ! k = a ! k" by auto
  with assms show ?thesis by (auto simp: list_eq_iff_nth_eq)
next
  case (Some j)
  from first_diff_from_Some [OF Some] Some assms(1) show ?thesis by auto
qed

lemma compare_missing:
  "fs p = None \<Longrightarrow> compareWithGolden H fs p a
     = \<lparr> match = False, goldenChecksum = '''', actualChecksum = H a,
         firstDiffOffset = None, goldenByte = None, actualByte = None \<rparr>"
  by (simp add: compareWithGolden_def)

lemma compare_checksums:
  assumes "fs p = Some g"
  shows "goldenChecksum (compareWithGolden H fs p a) = H g"
    and "actualChecksum (compareWithGolden H fs p a) = H a"
    and "match (compareWithGolden H fs p a) \<longleftrightarrow> H g = H a"
  using assms by (simp_all add: compareWithGolden_def Let_def split: option.splits)

lemma compare_first_diff:
  assumes "fs p = Some g" and "H g \<noteq> H a"
    and "i < min (length g) (length a)" and "g ! i \<noteq> a ! i" and "\<forall>k<i. g ! k = a ! k"
  shows "compareWithGolden H fs p a
     = \<lparr> match = False, goldenChecksum = H g, actualChecksum = H a,
         firstDiffOffset = Some i, goldenByte = Some (g ! i), actualByte = Some (a ! i) \<rparr>"
  using assms(1,2) first_diff_from_least [OF assms(3,4,5)]
  by (simp add: compareWithGolden_def Let_def)

lemma compare_prefix:
  assumes "fs p = Some g" and "H g \<noteq> H a"
    and "\<forall>k < min (length g) (length a). g ! k = a ! k"
  shows "compareWithGolden H fs p a
     = \<lparr> match = False, goldenChecksum = H g, actualChecksum = H a,
         firstDiffOffset = Some (min (length g) (length a)), goldenByte = None, actualByte = None \<rparr>"
    and "length g \<noteq> length a"
proof -
  show "compareWithGolden H fs p a
     = \<lparr> match = False, goldenChecksum = H g, actualChecksum = H a,
         firstDiffOffset = Some (min (length g) (length a)), goldenByte = None, actualByte = None \<rparr>"
    using assms(1,2) first_diff_from_prefix [OF assms(3)]
    by (simp add: compareWithGolden_def Let_def)
  show "length g \<noteq> length a"
  proof
    assume "length g = length a"
    with assms(3) have "g = a" by (simp add: list_eq_iff_nth_eq)
    with assms(2) show False by simp
  qed
qed

lemma compare_equal_length:
  assumes "fs p = Some g" and "H g \<noteq> H a" and "length g = length a"
  shows "\<exists>i < length g. g ! i \<noteq> a ! i \<and> (\<forall>k<i. g ! k = a ! k) \<and>
     compareWithGolden H fs p a
     = \<lparr> match = False, goldenChecksum = H g, actualChecksum = H a,
         firstDiffOffset = Some i, goldenByte = Some (g ! i), actualByte = Some (a ! i) \<rparr>"
proof -
  have "g \<noteq> a" using assms(2) by auto
  from equal_length_differ [OF assms(3) this]
  obtain i where i: "first_diff_from g a 0 = Some i" "i < length g" "g ! i \<noteq> a ! i" by blast
  from first_diff_from_Some [OF i(1)] have "\<forall>k<i. g ! k = a ! k" by simp
  with i assms(1,2) show ?thesis
    by (intro exI [of _ i]) (simp add: compareWithGolden_def Let_def)
qed

text \<open>
  Claim C7, as far as the code goes. A missing golden file gives \<open>match = false\<close>, an empty
  \<open>goldenChecksum\<close> and the digest of the actual data. When the golden file exists, both
  digests are reported and \<open>match\<close> is decided by comparing them: it is true whenever the
  bytes are equal, and, for a digest that does not collide on the two buffers, exactly when
  the bytes are equal. The contents differ, as far as the digest tells, when the digests
  differ. Then the result carries the first index at which the two buffers differ together
  with the two bytes there, whenever such an index exists below the shorter length (it
  always does when the lengths are equal); only when the shorter buffer is a prefix of the
  longer one is the offset the shorter length, with no bytes.
\<close>

theorem C7_compareWithGolden:
  "(fs p = None \<longrightarrow>
      compareWithGolden H fs p a
        = \<lparr> match = False, goldenChecksum = '''', actualChecksum = H a,
            firstDiffOffset = None, goldenByte = None, actualByte = None \<rparr>) \<and>
   (fs p = Some g \<longrightarrow>
      goldenChecksum (compareWithGolden H fs p a) = H g \<and>
      actualChecksum (compareWithGolden H fs p a) = H a \<and>
      (match (compareWithGolden H fs p a) \<longleftrightarrow> H g = H a) \<and>
      (g = a \<longrightarrow> match (compareWithGolden H fs p a)) \<and>
      ((H g = H a \<longrightarrow> g = a) \<longrightarrow> (match (compareWithGolden H fs p a) \<longleftrightarrow> g = a))) \<and>
   (fs p = Some g \<and> H g \<noteq> H a \<and>
    i < min (length g) (length a) \<and> g ! i \<noteq> a ! i \<and> (\<forall>k<i. g ! k = a ! k) \<longrightarrow>
      firstDiffOffset (compareWithGolden H fs p a) = Some i \<and>
      goldenByte (compareWithGolden H fs p a) = Some (g ! i) \<and>
      actualByte (compareWithGolden H fs p a) = Some (a ! i)) \<and>
   (fs p = Some g \<and> H g \<noteq> H a \<and> length g = length a \<longrightarrow>
      (\<exists>j < length g. g ! j \<noteq> a ! j \<and> (\<forall>k<j. g ! k = a ! k) \<and>
         firstDiffOffset (compareWithGolden H fs p a) = Some j \<and>
         goldenByte (compareWithGolden H fs p a) = Some (g ! j) \<and>
         actualByte (compareWithGolden H fs p a) = Some (a ! j))) \<and>
   (fs p = Some g \<and> H g \<noteq> H a \<and> (\<forall>k < min (length g) (length a). g ! k = a ! k) \<longrightarrow>
      length g \<noteq> length a \<and>
      firstDiffOffset (compareWithGolden H fs p a) = Some (min (length g) (length a)) \<and>
      goldenByte (compareWithGolden H fs p a) = None \<and>
      actualByte (compareWithGolden H fs p a) = None)"
proof -
  have p1: "fs p = None \<longrightarrow>
      compareWithGolden H fs p a
        = \<lparr> match = False, goldenChecksum = '''', actualChecksum = H a,
            firstDiffOffset = None, goldenByte = None, actualByte = None \<rparr>"
    by (simp add: compare_missing)
  have p2: "fs p = Some g \<longrightarrow>
      goldenChecksum (compareWithGolden H fs p a) = H g \<and>
      actualChecksum (compareWithGolden H fs p a) = H a \<and>
      (match (compareWithGolden H fs p a) \<longleftrightarrow> H g = H a) \<and>
      (g = a \<longrightarrow> match (compareWithGolden H fs p a)) \<and>
      ((H g = H a \<longrightarrow> g = a) \<longrightarrow> (match (compareWithGolden H fs p a) \<longleftrightarrow> g = a))"
    by (auto simp: compare_checksums)
  have p3: "fs p = Some g \<and> H g \<noteq> H a \<and>
    i < min (length g) (length a) \<and> g ! i \<noteq> a ! i \<and> (\<forall>k<i. g ! k = a ! k) \<longrightarrow>
      firstDiffOffset (compareWithGolden H fs p a) = Some i \<and>
      goldenByte (compareWithGolden H fs p a) = Some (g ! i) \<and>
      actualByte (compareWithGolden H fs p a) = Some (a ! i)"
  proof
    assume "fs p = Some g \<and> H g \<noteq> H a \<and>
      i < min (length g) (length a) \<and> g ! i \<noteq> a ! i \<and> (\<forall>k<i. g ! k = a ! k)"
    then have h: "fs p = Some g" "H g \<noteq> H a" "i < min (length g) (length a)"
      "g ! i \<noteq> a ! i" "\<forall>k<i. g ! k = a ! k"
      by blast+
    show "firstDiffOffset (compareWithGolden H fs p a) = Some i \<and>
      goldenByte (compareWithGolden H fs p a) = Some (g ! i) \<and>
      actualByte (compareWithGolden H fs p a) = Some (a ! i)"
      by (simp add: compare_first_diff [of fs p g H a i, OF h])
  qed
  have p4: "fs p = Some g \<and> H g \<noteq> H a \<and> length g = length a \<longrightarrow>
      (\<exists>j < length g. g ! j \<noteq> a ! j \<and> (\<forall>k<j. g ! k = a ! k) \<and>
         firstDiffOffset (compareWithGolden H fs p a) = Some j \<and>
         goldenByte (compareWithGolden H fs p a) = Some (g ! j) \<and>
         actualByte (compareWithGolden H fs p a) = Some (a ! j))"
  proof
    assume "fs p = Some g \<and> H g \<noteq> H a \<and> length g = length a"
    then have h: "fs p = Some g" "H g \<noteq> H a" "length g = length a"
      by simp_all
    from compare_equal_length [of fs p g H a, OF h]
    obtain j where "j < length g" "g ! j \<noteq> a ! j" "\<forall>k<j. g ! k = a ! k"
      "compareWithGolden H fs p a
       = \<lparr> match = False, goldenChecksum = H g, actualChecksum = H a,
           firstDiffOffset = Some j, goldenByte = Some (g ! j), actualByte = Some (a ! j) \<rparr>"
      by blast
    then show "\<exists>j < length g. g ! j \<noteq> a ! j \<and> (\<forall>k<j. g ! k = a ! k) \<and>
         firstDiffOffset (compareWithGolden H fs p a) = Some j \<and>
         goldenByte (compareWithGolden H fs p a) = Some (g ! j) \<and>
         actualByte (compareWithGolden H fs p a) = Some (a ! j)"
      by (intro exI [of _ j]) simp
  qed
  have p5: "fs p = Some g \<and> H g \<noteq> H a \<and> (\<forall>k < min (length g) (length a). g ! k = a ! k) \<longrightarrow>
      length g \<noteq> length a \<and>
      firstDiffOffset (compareWithGolden H fs p a) = Some (min (length g) (length a)) \<and>
      goldenByte (compareWithGolden H fs p a) = None \<and>
      actualByte (compareWithGolden H fs p a) = None"
  proof
    assume "fs p = Some g \<and> H g \<noteq> H a \<and> (\<forall>k < min (length g) (length a). g ! k = a ! k)"
    then have h: "fs p = Some g" "H g \<noteq> H a" "\<forall>k < min (length g) (length a). g ! k = a ! k"
      by blast+
    show "length g \<noteq> length a \<and>
      firstDiffOffset (compareWithGolden H fs p a) = Some (min (length g) (length a)) \<and>
      goldenByte (compareWithGolden H fs p a) = None \<and>
      actualByte (compareWithGolden H fs p a) = None"
      using compare_prefix [of fs p g H a, OF h] by simp
  qed
  from p1 p2 p3 p4 p5 show ?thesis
    by (intro conjI)
qed

theorem C7_compareWithGolden_witness:
  "golden_fs ''golden/missing.bin'' = None \<and>
   compareWithGolden hexdump golden_fs ''golden/missing.bin'' [1, 2, 3]
     = \<lparr> match = False, goldenChecksum = '''', actualChecksum = ''010203'',
         firstDiffOffset = None, goldenByte = None, actualByte = None \<rparr> \<and>
   golden_fs ''golden/t1_framebuffer.bin'' = Some [1, 2, 3] \<and>
   match (compareWithGolden hexdump golden_fs ''golden/t1_framebuffer.bin'' [1, 2, 3]) \<and>
   hexdump [1, 2, 3] \<noteq> hexdump [1, 9, 3] \<and>
   [1, 2, 3] \<noteq> [1, 9, 3 :: 8 word] \<and>
   \<not> match (compareWithGolden hexdump golden_fs ''golden/t1_framebuffer.bin'' [1, 9, 3]) \<and>
   length [1, 2, 3 :: 8 word] = length [1, 9, 3 :: 8 word] \<and>
   firstDiffOffset (compareWithGolden hexdump golden_fs ''golden/t1_framebuffer.bin'' [1, 9, 3])
     = Some 1 \<and>
   goldenByte (compareWithGolden hexdump golden_fs ''golden/t1_framebuffer.bin'' [1, 9, 3])
     = Some 2 \<and>
   actualByte (compareWithGolden hexdump golden_fs ''golden/t1_framebuffer.bin'' [1, 9, 3])
     = Some 9 \<and>
   hexdump [1, 2, 3] \<noteq> hexdump [1, 2] \<and>
   firstDiffOffset (compareWithGolden hexdump golden_fs ''golden/t1_framebuffer.bin'' [1, 2])
     = Some 2 \<and>
   goldenByte (compareWithGolden hexdump golden_fs ''golden/t1_framebuffer.bin'' [1, 2]) = None"
proof -
  note t1 = C7_compareWithGolden
    [of golden_fs "''golden/missing.bin''" hexdump "[1, 2, 3]" "[]" 0]
  note t2 = C7_compareWithGolden
    [of golden_fs "''golden/t1_framebuffer.bin''" hexdump "[1, 2, 3]" "[1, 2, 3]" 0]
  note t3 = C7_compareWithGolden
    [of golden_fs "''golden/t1_framebuffer.bin''" hexdump "[1, 9, 3]" "[1, 2, 3]" 1]
  note t5 = C7_compareWithGolden
    [of golden_fs "''golden/t1_framebuffer.bin''" hexdump "[1, 2]" "[1, 2, 3]" 0]
  have f0: "golden_fs ''golden/missing.bin'' = None"
    by (simp add: golden_fs_def)
  have f1: "golden_fs ''golden/t1_framebuffer.bin'' = Some [1, 2, 3]"
    by (simp add: golden_fs_def)
  have d: "hexdump [1, 2, 3] = ''010203''" "hexdump [1, 9, 3] = ''010903''" "hexdump [1, 2] = ''0102''"
    by (simp_all add: hexdump_def hexdigit_def)
  have n3: "hexdump [1, 2, 3] \<noteq> hexdump [1, 9, 3]" and n5: "hexdump [1, 2, 3] \<noteq> hexdump [1, 2]"
    by (simp_all add: d)
  have i3: "(1::nat) < min (length [1, 2, 3 :: 8 word]) (length [1, 9, 3 :: 8 word]) \<and>
      [1, 2, 3 :: 8 word] ! 1 \<noteq> [1, 9, 3] ! 1 \<and> (\<forall>k<1. [1, 2, 3 :: 8 word] ! k = [1, 9, 3] ! k)"
    by simp
  have i5: "\<forall>k < min (length [1, 2, 3 :: 8 word]) (length [1, 2 :: 8 word]).
      [1, 2, 3 :: 8 word] ! k = [1, 2] ! k"
    by (simp add: nth_Cons split: nat.splits)
  from t1 f0 have c1: "compareWithGolden hexdump golden_fs ''golden/missing.bin'' [1, 2, 3]
     = \<lparr> match = False, goldenChecksum = '''', actualChecksum = ''010203'',
         firstDiffOffset = None, goldenByte = None, actualByte = None \<rparr>"
    by (simp add: d)
  from t2 f1 have c2: "match (compareWithGolden hexdump golden_fs ''golden/t1_framebuffer.bin'' [1, 2, 3])"
    by blast
  have ne3: "[1, 2, 3] \<noteq> [1, 9, 3 :: 8 word]"
    by simp
  from t3 f1 n3 ne3 have m3:
    "\<not> match (compareWithGolden hexdump golden_fs ''golden/t1_framebuffer.bin'' [1, 9, 3])"
    by blast
  have l3: "length [1, 2, 3 :: 8 word] = length [1, 9, 3 :: 8 word]"
    by simp
  from t3 f1 n3 i3 have c3:
    "firstDiffOffset (compareWithGolden hexdump golden_fs ''golden/t1_framebuffer.bin'' [1, 9, 3]) = Some 1 \<and>
     goldenByte (compareWithGolden hexdump golden_fs ''golden/t1_framebuffer.bin'' [1, 9, 3]) = Some ([1, 2, 3] ! 1) \<and>
     actualByte (compareWithGolden hexdump golden_fs ''golden/t1_framebuffer.bin'' [1, 9, 3]) = Some ([1, 9, 3] ! 1)"
    by blast
  from t5 f1 n5 i5 have c5:
    "firstDiffOffset (compareWithGolden hexdump golden_fs ''golden/t1_framebuffer.bin'' [1, 2])
        = Some (min (length [1, 2, 3 :: 8 word]) (length [1, 2 :: 8 word])) \<and>
     goldenByte (compareWithGolden hexdump golden_fs ''golden/t1_framebuffer.bin'' [1, 2]) = None"
    by blast
  from f0 c1 f1 c2 n3 ne3 m3 l3 c3 n5 c5 show ?thesis
    by simp
qed

theorem C7_counterexample_lengths_differ:
  "length [1, 2, 3 :: 8 word] \<noteq> length [9, 2 :: 8 word] \<and>
   min (length [1, 2, 3 :: 8 word]) (length [9, 2 :: 8 word]) = 2 \<and>
   compareWithGolden hexdump golden_fs ''golden/t1_framebuffer.bin'' [9, 2]
     = \<lparr> match = False, goldenChecksum = ''010203'', actualChecksum = ''0902'',
         firstDiffOffset = Some 0, goldenByte = Some 1, actualByte = Some 9 \<rparr>"
  by (simp add: compareWithGolden_def golden_fs_def hexdump_def hexdigit_def
      first_diff_from.simps Let_def)

section \<open>Properties of the socket-based backend\<close>

subsection \<open>Snapshot load, case by case\<close>

lemma loadSnapshot_silent:
  assumes "qmp s" and "first_reply monitor name s = QSilent"
  shows "qemu_loadSnapshot monitor name s
     = (loading_prefix name,
        s\<lparr>currentStatus := Paused, qmp_sent := qmp_sent s @ [loadvm_request name]\<rparr>, Pending)"
  using assms
  by (simp add: qemu_loadSnapshot_def execute_def first_reply_def loading_prefix_def Let_def)

lemma loadSnapshot_loadvm_fails:
  assumes "qmp s" and "first_reply monitor name s = QRaise e"
  shows "qemu_loadSnapshot monitor name s
     = (loading_prefix name @ [QmpAnswer (QRaise e), Emit (SnapshotLoadFailed name (message e))],
        s\<lparr>currentStatus := Paused, qmp_sent := qmp_sent s @ [loadvm_request name]\<rparr>, Raised e)"
  using assms
  by (simp add: qemu_loadSnapshot_def execute_def first_reply_def loading_prefix_def Let_def)

lemma loadSnapshot_cont_silent:
  assumes "qmp s" and "first_reply monitor name s = QReturn"
    and "second_reply monitor name s = QSilent"
  shows "qemu_loadSnapshot monitor name s
     = (loading_prefix name @ [QmpAnswer QReturn, QmpSend cont_request],
        s\<lparr>currentStatus := Paused, breakpoints := [],
           qmp_sent := qmp_sent s @ [loadvm_request name, cont_request]\<rparr>, Pending)"
  using assms
  by (simp add: qemu_loadSnapshot_def execute_def first_reply_def second_reply_def
      loading_prefix_def Let_def)

lemma loadSnapshot_cont_fails:
  assumes "qmp s" and "first_reply monitor name s = QReturn"
    and "second_reply monitor name s = QRaise e"
  shows "qemu_loadSnapshot monitor name s
     = (loading_prefix name @ [QmpAnswer QReturn, QmpSend cont_request, QmpAnswer (QRaise e),
          Emit (SnapshotLoadFailed name (message e))],
        s\<lparr>currentStatus := Paused, breakpoints := [],
           qmp_sent := qmp_sent s @ [loadvm_request name, cont_request]\<rparr>, Raised e)"
  using assms
  by (simp add: qemu_loadSnapshot_def execute_def first_reply_def second_reply_def
      loading_prefix_def Let_def)

lemma loadSnapshot_succeeds:
  assumes "qmp s" and "first_reply monitor name s = QReturn"
    and "second_reply monitor name s = QReturn"
  shows "qemu_loadSnapshot monitor name s
     = (loading_prefix name @ [QmpAnswer QReturn, QmpSend cont_request, QmpAnswer QReturn,
          SetStatus Running, Emit (StatusEvent Running), Emit (SnapshotLoaded name)],
        s\<lparr>currentStatus := Running, breakpoints := [],
           qmp_sent := qmp_sent s @ [loadvm_request name, cont_request]\<rparr>, Returned ())"
  using assms
  by (simp add: qemu_loadSnapshot_def execute_def first_reply_def second_reply_def
      loading_prefix_def Let_def)

text \<open>
  Claim C9. On a backend whose machine-control client is connected, \<open>loadSnapshot\<close> sets
  the status to \<open>paused\<close> and emits \<open>snapshot:loading\<close> before it sends the \<open>loadvm\<close>
  request. When \<open>loadvm\<close> and the following \<open>cont\<close> are both answered, it then sets the
  status to \<open>running\<close> and emits \<open>snapshot:loaded\<close> last, and returns. When either request
  fails, \<open>snapshot:load-failed\<close> is emitted after that answer, as the last action, and the
  error is raised to the caller with the status still \<open>paused\<close>. The status is set back to
  \<open>running\<close> exactly when the operation returns.
\<close>

theorem C9_loadSnapshot_event_order:
  assumes "qmp s"
  shows
   "take 4 (fst (qemu_loadSnapshot monitor name s))
      = [SetStatus Paused, Emit (StatusEvent Paused), Emit (SnapshotLoading name),
         QmpSend (loadvm_request name)] \<and>
    (first_reply monitor name s = QReturn \<and> second_reply monitor name s = QReturn \<longrightarrow>
       fst (qemu_loadSnapshot monitor name s)
         = [SetStatus Paused, Emit (StatusEvent Paused), Emit (SnapshotLoading name),
            QmpSend (loadvm_request name), QmpAnswer QReturn,
            QmpSend cont_request, QmpAnswer QReturn,
            SetStatus Running, Emit (StatusEvent Running), Emit (SnapshotLoaded name)]) \<and>
    (first_reply monitor name s = QRaise e \<longrightarrow>
       fst (qemu_loadSnapshot monitor name s)
         = [SetStatus Paused, Emit (StatusEvent Paused), Emit (SnapshotLoading name),
            QmpSend (loadvm_request name), QmpAnswer (QRaise e),
            Emit (SnapshotLoadFailed name (message e))] \<and>
       snd (snd (qemu_loadSnapshot monitor name s)) = Raised e) \<and>
    (first_reply monitor name s = QReturn \<and> second_reply monitor name s = QRaise e \<longrightarrow>
       fst (qemu_loadSnapshot monitor name s)
         = [SetStatus Paused, Emit (StatusEvent Paused), Emit (SnapshotLoading name),
            QmpSend (loadvm_request name), QmpAnswer QReturn,
            QmpSend cont_request, QmpAnswer (QRaise e),
            Emit (SnapshotLoadFailed name (message e))] \<and>
       snd (snd (qemu_loadSnapshot monitor name s)) = Raised e) \<and>
    (snd (snd (qemu_loadSnapshot monitor name s)) = Returned ()
       \<longleftrightarrow> first_reply monitor name s = QReturn \<and> second_reply monitor name s = QReturn) \<and>
    (SetStatus Running \<in> set (fst (qemu_loadSnapshot monitor name s))
       \<longleftrightarrow> snd (snd (qemu_loadSnapshot monitor name s)) = Returned ()) \<and>
    (Emit (SnapshotLoaded name) \<in> set (fst (qemu_loadSnapshot monitor name s))
       \<longleftrightarrow> snd (snd (qemu_loadSnapshot monitor name s)) = Returned ()) \<and>
    currentStatus (fst (snd (qemu_loadSnapshot monitor name s)))
       = (if snd (snd (qemu_loadSnapshot monitor name s)) = Returned () then Running else Paused)"
proof -
  consider
    (silent) "first_reply monitor name s = QSilent"
  | (loadvm_fails) e' where "first_reply monitor name s = QRaise e'"
  | (cont_silent) "first_reply monitor name s = QReturn" "second_reply monitor name s = QSilent"
  | (cont_fails) e' where "first_reply monitor name s = QReturn"
      "second_reply monitor name s = QRaise e'"
  | (succeeds) "first_reply monitor name s = QReturn" "second_reply monitor name s = QReturn"
    by (cases "first_reply monitor name s"; cases "second_reply monitor name s") auto
  then show ?thesis
  proof cases
  case silent
  show ?thesis
    by (simp add: loadSnapshot_silent [OF assms silent] silent loading_prefix_def)
next
  case (loadvm_fails e')
  show ?thesis
    by (simp add: loadSnapshot_loadvm_fails [OF assms loadvm_fails] loadvm_fails
        loading_prefix_def)
next
  case cont_silent
  show ?thesis
    by (simp add: loadSnapshot_cont_silent [OF assms cont_silent] cont_silent
        loading_prefix_def)
next
  case (cont_fails e')
  show ?thesis
    by (simp add: loadSnapshot_cont_fails [OF assms cont_fails] cont_fails loading_prefix_def)
next
  case succeeds
  show ?thesis
    by (simp add: loadSnapshot_succeeds [OF assms succeeds] succeeds loading_prefix_def)
  qed
qed

theorem C9_loadSnapshot_event_order_witness:
  "qmp qemu0 \<and>
   first_reply monitor_ok ''s1'' qemu0 = QReturn \<and> second_reply monitor_ok ''s1'' qemu0 = QReturn \<and>
   fst (qemu_loadSnapshot monitor_ok ''s1'' qemu0)
     = [SetStatus Paused, Emit (StatusEvent Paused), Emit (SnapshotLoading ''s1''),
        QmpSend (''human-monitor-command'', Some ''loadvm s1''), QmpAnswer QReturn,
        QmpSend (''cont'', None), QmpAnswer QReturn,
        SetStatus Running, Emit (StatusEvent Running), Emit (SnapshotLoaded ''s1'')] \<and>
   snd (snd (qemu_loadSnapshot monitor_ok ''s1'' qemu0)) = Returned () \<and>
   currentStatus (fst (snd (qemu_loadSnapshot monitor_ok ''s1'' qemu0))) = Running \<and>
   first_reply monitor_no_snapshot ''s1'' qemu0
     = QRaise (ProtocolError ''QMP error (GenericError): no such snapshot'') \<and>
   fst (qemu_loadSnapshot monitor_no_snapshot ''s1'' qemu0)
     = [SetStatus Paused, Emit (StatusEvent Paused), Emit (SnapshotLoading ''s1''),
        QmpSend (''human-monitor-command'', Some ''loadvm s1''),
        QmpAnswer (QRaise (ProtocolError ''QMP error (GenericError): no such snapshot'')),
        Emit (SnapshotLoadFailed ''s1'' ''QMP error (GenericError): no such snapshot'')] \<and>
   snd (snd (qemu_loadSnapshot monitor_no_snapshot ''s1'' qemu0))
     = Raised (ProtocolError ''QMP error (GenericError): no such snapshot'') \<and>
   currentStatus (fst (snd (qemu_loadSnapshot monitor_no_snapshot ''s1'' qemu0))) = Paused \<and>
   first_reply monitor_cont_fails ''s1'' qemu0 = QReturn \<and>
   second_reply monitor_cont_fails ''s1'' qemu0
     = QRaise (ConnectionError ''QMP socket not connected'') \<and>
   fst (qemu_loadSnapshot monitor_cont_fails ''s1'' qemu0)
     = [SetStatus Paused, Emit (StatusEvent Paused), Emit (SnapshotLoading ''s1''),
        QmpSend (''human-monitor-command'', Some ''loadvm s1''), QmpAnswer QReturn,
        QmpSend (''cont'', None),
        QmpAnswer (QRaise (ConnectionError ''QMP socket not connected'')),
        Emit (SnapshotLoadFailed ''s1'' ''QMP socket not connected'')]"
proof -
  have q: "qmp qemu0"
    by (simp add: qemu0_def)
  have a1: "first_reply monitor_ok ''s1'' qemu0 = QReturn"
    and a2: "second_reply monitor_ok ''s1'' qemu0 = QReturn"
    by (simp_all add: first_reply_def second_reply_def monitor_ok_def)
  have b1: "first_reply monitor_no_snapshot ''s1'' qemu0
     = QRaise (ProtocolError ''QMP error (GenericError): no such snapshot'')"
    by (simp add: first_reply_def monitor_no_snapshot_def)
  have c1: "first_reply monitor_cont_fails ''s1'' qemu0 = QReturn"
    and c2: "second_reply monitor_cont_fails ''s1'' qemu0
     = QRaise (ConnectionError ''QMP socket not connected'')"
    by (simp_all add: first_reply_def second_reply_def monitor_cont_fails_def qemu0_def)
  note ta = C9_loadSnapshot_event_order [OF q, of monitor_ok "''s1''" "Error ''''"]
  note tb = C9_loadSnapshot_event_order [OF q, of monitor_no_snapshot "''s1''"
      "ProtocolError ''QMP error (GenericError): no such snapshot''"]
  note tc = C9_loadSnapshot_event_order [OF q, of monitor_cont_fails "''s1''"
      "ConnectionError ''QMP socket not connected''"]
  from ta a1 a2 have ra:
    "fst (qemu_loadSnapshot monitor_ok ''s1'' qemu0)
     = [SetStatus Paused, Emit (StatusEvent Paused), Emit (SnapshotLoading ''s1''),
        QmpSend (loadvm_request ''s1''), QmpAnswer QReturn,
        QmpSend cont_request, QmpAnswer QReturn,
        SetStatus Running, Emit (StatusEvent Running), Emit (SnapshotLoaded ''s1'')]"
    "snd (snd (qemu_loadSnapshot monitor_ok ''s1'' qemu0)) = Returned ()"
    "currentStatus (fst (snd (qemu_loadSnapshot monitor_ok ''s1'' qemu0))) = Running"
    by simp_all
  from tb b1 have rb:
    "fst (qemu_loadSnapshot monitor_no_snapshot ''s1'' qemu0)
     = [SetStatus Paused, Emit (StatusEvent Paused), Emit (SnapshotLoading ''s1''),
        QmpSend (loadvm_request ''s1''),
        QmpAnswer (QRaise (ProtocolError ''QMP error (GenericError): no such snapshot'')),
        Emit (SnapshotLoadFailed ''s1''
           (message (ProtocolError ''QMP error (GenericError): no such snapshot'')))]"
    "snd (snd (qemu_loadSnapshot monitor_no_snapshot ''s1'' qemu0))
     = Raised (ProtocolError ''QMP error (GenericError): no such snapshot'')"
    "currentStatus (fst (snd (qemu_loadSnapshot monitor_no_snapshot ''s1'' qemu0))) = Paused"
    by simp_all
  from tc c1 c2 have rc:
    "fst (qemu_loadSnapshot monitor_cont_fails ''s1'' qemu0)
     = [SetStatus Paused, Emit (StatusEvent Paused), Emit (SnapshotLoading ''s1''),
        QmpSend (loadvm_request ''s1''), QmpAnswer QReturn,
        QmpSend cont_request,
        QmpAnswer (QRaise (ConnectionError ''QMP socket not connected'')),
        Emit (SnapshotLoadFailed ''s1'' (message (ConnectionError ''QMP socket not connected'')))]"
    by simp
  from q a1 a2 ra b1 rb c1 c2 rc show ?thesis
    by (simp add: loadvm_request_def cont_request_def)
qed

subsection \<open>Breakpoints across a snapshot load\<close>

text \<open>Setting and removing a breakpoint keep the table and the stub in step.\<close>

lemma bp_key_inj: "bp_key n = bp_key m \<Longrightarrow> n = m"
proof -
  assume "bp_key n = bp_key m"
  then have "digits10 n = digits10 m" by (simp add: bp_key_def)
  then have "digits_value 10 (digits10 n) = digits_value 10 (digits10 m)" by simp
  then show ?thesis by (simp add: digits10_value)
qed

lemma hexdigit_no_comma: "hexdigit d \<noteq> CHR '',''"
proof -
  have "d mod 16 \<in> {0,1,2,3,4,5,6,7,8,9,10,11,12,13,14,15}"
    by (rule lt16) simp
  then show ?thesis
    unfolding hexdigit_def by (elim insertE emptyE) simp_all
qed

lemma digits16_no_comma: "CHR '','' \<notin> set (digits16 n)"
proof (induction n rule: digits16.induct)
  case (1 n)
  show ?case
  proof (cases "n < 16")
    case True
    then show ?thesis by (simp add: digits16.simps [of n] hexdigit_no_comma [symmetric])
  next
    case False
    with 1 show ?thesis by (simp add: digits16.simps [of n] hexdigit_no_comma [symmetric])
  qed
qed

lemma toString16_no_comma: "CHR '','' \<notin> set (toString16 x)"
  by (cases x) (simp_all add: toString16_def digits16_no_comma)

lemma packet_address_set: "packet_address (setBreakpoint_request addr) = toString16 addr"
  using toString16_no_comma [of addr]
  by (auto simp: packet_address_def setBreakpoint_request_def takeWhile_tail)

lemma packet_address_remove: "packet_address (removeBreakpoint_request addr) = toString16 addr"
  using toString16_no_comma [of addr]
  by (auto simp: packet_address_def removeBreakpoint_request_def takeWhile_tail)

lemma stub_breakpoints_append:
  "stub_breakpoints (tr @ tr') bs = stub_breakpoints tr' (stub_breakpoints tr bs)"
  by (induction tr bs rule: stub_breakpoints.induct) simp_all

lemma table_set_fresh: "k \<notin> fst ` set t \<Longrightarrow> table_set k v t = t @ [(k, v)]"
  by (induction t) auto

lemma in_stepD:
  assumes "in_step s tr"
  shows "mset (table_addresses s) = mset (stub_breakpoints tr [])"
    and "distinct (map fst (breakpoints s))"
    and "\<And>k v. (k, v) \<in> set (breakpoints s) \<Longrightarrow> \<exists>n < nextBpId s. k = bp_key n"
proof -
  show "mset (table_addresses s) = mset (stub_breakpoints tr [])"
    and "distinct (map fst (breakpoints s))"
    using assms by (simp_all add: in_step_def)
  fix k v
  assume m: "(k, v) \<in> set (breakpoints s)"
  from assms have "\<forall>x \<in> set (breakpoints s).
      case x of (k, v) \<Rightarrow> \<exists>n \<in> set [0..<nextBpId s]. k = bp_key n"
    by (simp add: in_step_def list_all_iff list_ex_iff)
  from bspec [OF this m] show "\<exists>n < nextBpId s. k = bp_key n"
    by auto
qed

lemma in_stepI:
  assumes "mset (table_addresses s) = mset (stub_breakpoints tr [])"
    and "distinct (map fst (breakpoints s))"
    and "\<And>k v. (k, v) \<in> set (breakpoints s) \<Longrightarrow> \<exists>n < nextBpId s. k = bp_key n"
  shows "in_step s tr"
  using assms by (fastforce simp: in_step_def list_all_iff list_ex_iff)

lemma setBreakpoint_in_step:
  assumes inv: "in_step s tr"
  shows "in_step (fst (snd (qemu_setBreakpoint stub ty address s)))
           (tr @ fst (qemu_setBreakpoint stub ty address s))"
proof (cases "gdb s \<and> ty = Execution")
  case False
  then have "qemu_setBreakpoint stub ty address s
      = ([], s, snd (snd (qemu_setBreakpoint stub ty address s)))"
    by (auto simp: qemu_setBreakpoint_def)
  then show ?thesis
    using inv by (metis append_Nil2 fst_conv snd_conv)
next
  case True
  let ?cmd = "setBreakpoint_request (linear address)"
  let ?resp = "stub (gdb_sent s @ [?cmd])"
  let ?s1 = "s\<lparr>gdb_sent := gdb_sent s @ [?cmd]\<rparr>"
  have s1: "in_step ?s1 tr"
    using inv by (simp add: in_step_def table_addresses_def)
  show ?thesis
  proof (cases "?resp = Inr ''OK''")
    case False
    then have stub_same: "stub_breakpoints (tr @ [GdbExchange ?cmd ?resp]) []
        = stub_breakpoints tr []"
      by (simp add: stub_breakpoints_append)
    have "fst (qemu_setBreakpoint stub ty address s) = [GdbExchange ?cmd ?resp] \<and>
          fst (snd (qemu_setBreakpoint stub ty address s)) = ?s1"
      using True False
      by (auto simp: qemu_setBreakpoint_def command_def Let_def split: sum.splits)
    then show ?thesis
      using s1 stub_same by (simp add: in_step_def)
  next
    case ok: True
    let ?key = "bp_key (nextBpId s)"
    let ?bp = "\<lparr> bp_id = ?key, bp_type = ty, bp_address = Some address, bp_enabled = True \<rparr>"
    let ?s2 = "?s1\<lparr>nextBpId := Suc (nextBpId s),
                     breakpoints := table_set ?key (linear address, ?bp) (breakpoints s)\<rparr>"
    have r: "fst (qemu_setBreakpoint stub ty address s) = [GdbExchange ?cmd ?resp]"
      "fst (snd (qemu_setBreakpoint stub ty address s)) = ?s2"
      using True ok by (simp_all add: qemu_setBreakpoint_def command_def bp_key_def Let_def)
    have fresh: "?key \<notin> fst ` set (breakpoints s)"
    proof
      assume "?key \<in> fst ` set (breakpoints s)"
      then obtain v where "(?key, v) \<in> set (breakpoints s)" by auto
      from in_stepD(3) [OF inv this] obtain n where "n < nextBpId s" "?key = bp_key n" by blast
      then show False using bp_key_inj by blast
    qed
    have tbl: "table_set ?key (linear address, ?bp) (breakpoints s)
        = breakpoints s @ [(?key, linear address, ?bp)]"
      by (rule table_set_fresh [OF fresh])
    have stub_more: "stub_breakpoints (tr @ [GdbExchange ?cmd ?resp]) []
        = stub_breakpoints tr [] @ [toString16 (linear address)]"
      using ok
      by (simp add: stub_breakpoints_append packet_address_set)
         (simp add: setBreakpoint_request_def startsWith_def)
    show ?thesis
      unfolding r
    proof (rule in_stepI)
      show "mset (table_addresses ?s2) = mset (stub_breakpoints (tr @ [GdbExchange ?cmd ?resp]) [])"
        using in_stepD(1) [OF inv] by (simp add: stub_more table_addresses_def tbl)
      show "distinct (map fst (breakpoints ?s2))"
        using in_stepD(2) [OF inv] fresh by (simp add: tbl)
      fix k v
      assume "(k, v) \<in> set (breakpoints ?s2)"
      then have "(k, v) \<in> set (breakpoints s) \<or> k = ?key"
        by (auto simp: tbl)
      then show "\<exists>n < nextBpId ?s2. k = bp_key n"
      proof
        assume "(k, v) \<in> set (breakpoints s)"
        from in_stepD(3) [OF inv this] show ?thesis
          by (auto intro: less_SucI)
      next
        assume "k = ?key"
        then show ?thesis by auto
      qed
    qed
  qed
qed

lemma table_delete_mset:
  assumes "distinct (map fst t)" and "map_of t k = Some v"
  shows "mset (map f (table_delete k t)) = mset (map f t) - {# f (k, v) #}"
  using assms
proof (induction t)
  case Nil
  then show ?case by simp
next
  case (Cons x t)
  obtain k' v' where x: "x = (k', v')" by (cases x)
  show ?case
  proof (cases "k' = k")
    case True
    then have v: "v' = v" using Cons.prems(2) x by simp
    have "k \<notin> fst ` set t" using Cons.prems(1) x True by simp
    then have "table_delete k t = t"
      by (force simp: table_delete_def filter_id_conv)
    then show ?thesis
      using x True v by (simp add: table_delete_def)
  next
    case False
    then have "map_of t k = Some v" using Cons.prems(2) x by simp
    moreover have "distinct (map fst t)" using Cons.prems(1) by simp
    ultimately have ih: "mset (map f (table_delete k t)) = mset (map f t) - {# f (k, v) #}"
      by (rule Cons.IH [rotated])
    have "(k, v) \<in> set t" using \<open>map_of t k = Some v\<close> by (rule map_of_SomeD)
    then have "f (k, v) \<in># mset (map f t)" by force
    then show ?thesis
      using x False ih by (simp add: table_delete_def)
  qed
qed

lemma removeBreakpoint_in_step:
  assumes inv: "in_step s tr" and ack: "\<And>h r. stub h = Inr r \<Longrightarrow> r = ''OK''"
  shows "in_step (fst (snd (qemu_removeBreakpoint stub ident s)))
           (tr @ fst (qemu_removeBreakpoint stub ident s))"
proof (cases "gdb s \<and> map_of (breakpoints s) ident \<noteq> None")
  case False
  then have "qemu_removeBreakpoint stub ident s
      = ([], s, snd (snd (qemu_removeBreakpoint stub ident s)))"
    by (cases "map_of (breakpoints s) ident") (auto simp: qemu_removeBreakpoint_def)
  then show ?thesis
    using inv by (metis append_Nil2 fst_conv snd_conv)
next
  case True
  then obtain addr bp where e: "map_of (breakpoints s) ident = Some (addr, bp)" and g: "gdb s"
    by auto
  let ?cmd = "removeBreakpoint_request addr"
  let ?resp = "stub (gdb_sent s @ [?cmd])"
  let ?s1 = "s\<lparr>gdb_sent := gdb_sent s @ [?cmd]\<rparr>"
  have s1: "in_step ?s1 tr"
    using inv by (simp add: in_step_def table_addresses_def)
  show ?thesis
  proof (cases ?resp)
    case (Inl err)
    then have stub_same: "stub_breakpoints (tr @ [GdbExchange ?cmd ?resp]) []
        = stub_breakpoints tr []"
      by (simp add: stub_breakpoints_append)
    have "fst (qemu_removeBreakpoint stub ident s) = [GdbExchange ?cmd ?resp] \<and>
          fst (snd (qemu_removeBreakpoint stub ident s)) = ?s1"
      using g e Inl by (simp add: qemu_removeBreakpoint_def command_def Let_def)
    then show ?thesis
      using s1 stub_same by (simp add: in_step_def)
  next
    case (Inr r)
    then have ok: "?resp = Inr ''OK''"
      using ack [of "gdb_sent s @ [?cmd]" r] by simp
    let ?s2 = "?s1\<lparr>breakpoints := table_delete ident (breakpoints s)\<rparr>"
    have r: "fst (qemu_removeBreakpoint stub ident s) = [GdbExchange ?cmd ?resp]"
      "fst (snd (qemu_removeBreakpoint stub ident s)) = ?s2"
      using g e ok by (simp_all add: qemu_removeBreakpoint_def command_def Let_def)
    have stub_less: "stub_breakpoints (tr @ [GdbExchange ?cmd ?resp]) []
        = remove1 (toString16 addr) (stub_breakpoints tr [])"
      using ok
      by (simp add: stub_breakpoints_append packet_address_remove)
         (simp add: removeBreakpoint_request_def startsWith_def)
    have tbl: "mset (table_addresses ?s2) = mset (table_addresses s) - {# toString16 addr #}"
      using table_delete_mset [OF in_stepD(2) [OF inv] e, of "\<lambda>(k, a, b). toString16 a"]
      by (simp add: table_addresses_def)
    show ?thesis
      unfolding r
    proof (rule in_stepI)
      show "mset (table_addresses ?s2) = mset (stub_breakpoints (tr @ [GdbExchange ?cmd ?resp]) [])"
        using in_stepD(1) [OF inv] by (simp add: stub_less tbl)
      show "distinct (map fst (breakpoints ?s2))"
        using in_stepD(2) [OF inv] by (simp add: table_delete_def distinct_map_filter)
      fix k v
      assume "(k, v) \<in> set (breakpoints ?s2)"
      then have "(k, v) \<in> set (breakpoints s)"
        by (auto simp: table_delete_def)
      from in_stepD(3) [OF inv this] show "\<exists>n < nextBpId ?s2. k = bp_key n"
        by simp
    qed
  qed
qed

lemma in_step_initially: "breakpoints s = [] \<Longrightarrow> in_step s []"
  by (simp add: in_step_def table_addresses_def)

lemma parse_0x100: "parseAddress ''0x100''
           = \<lparr> linear = Num 256, segOff = \<lparr> segment = Num 16, offset = Num 0 \<rparr> \<rparr>"
    by (simp add: parseAddress_def startsWith_def parseInt_def is_space_def is_digit_def
        digit_val_def digits_value_def digit_nat_def linearToSegOff_def js_and_def js_shr_def
        toInt32_def Let_def)

lemma hex_256: "toString16 (Num 256) = ''100''"
  by (simp add: toString16_def digits16.simps hexdigit_def)

lemma set_at_0x100:
  "qemu_setBreakpoint stub_ack Execution (parseAddress ''0x100'') qemu0
   = ([GdbExchange ''Z0,100,1'' (Inr ''OK'')],
      qemu0\<lparr>gdb_sent := [''Z0,100,1''], nextBpId := 2,
            breakpoints := [(''bp_1'', Num 256,
               \<lparr> bp_id = ''bp_1'', bp_type = Execution,
                 bp_address = Some (parseAddress ''0x100''), bp_enabled = True \<rparr>)]\<rparr>,
      Inr \<lparr> bp_id = ''bp_1'', bp_type = Execution,
                 bp_address = Some (parseAddress ''0x100''), bp_enabled = True \<rparr>)"
  by (simp add: qemu_setBreakpoint_def parse_0x100 qemu0_def command_def stub_ack_def
      setBreakpoint_request_def hex_256 digits10.simps hexdigit_def Let_def)

text \<open>
  Claim C5 at a concrete run. An execution breakpoint is set at linear \<open>0x100\<close> (the stub
  acknowledges \<open>Z0,100,1\<close>) and then a snapshot is loaded. Afterwards the backend's table
  is empty, but the only debug traffic was the \<open>Z0\<close> request: no \<open>z0\<close> was sent, and the
  stub still holds the breakpoint at \<open>0x100\<close>.
\<close>

theorem C5_snapshot_load_leaves_stub_breakpoint:
  "table_addresses (snd breakpoint_then_load) = [] \<and>
   stub_breakpoints (fst breakpoint_then_load) [] = [''100''] \<and>
   fst breakpoint_then_load
     = [GdbExchange ''Z0,100,1'' (Inr ''OK''),
        SetStatus Paused, Emit (StatusEvent Paused), Emit (SnapshotLoading ''s1''),
        QmpSend (''human-monitor-command'', Some ''loadvm s1''), QmpAnswer QReturn,
        QmpSend (''cont'', None), QmpAnswer QReturn,
        SetStatus Running, Emit (StatusEvent Running), Emit (SnapshotLoaded ''s1'')]"
  unfolding breakpoint_then_load_def set_at_0x100
  by (simp add: qemu_loadSnapshot_def qemu0_def execute_def monitor_ok_def loadvm_request_def
      cont_request_def table_addresses_def startsWith_def packet_address_def Let_def)

section \<open>Properties of the capture pipeline\<close>

subsection \<open>Programs confined to a kind of calls\<close>

lemma confinedI:
  assumes "\<And>h h' v. m h = (h', Inr v) \<Longrightarrow>
             \<exists>new. h' = h @ new \<and> list_all (\<lambda>x. P (fst x) \<and> ok_entry x) new"
    and "\<And>h h' e. m h = (h', Inl e) \<Longrightarrow>
             \<exists>new c. h' = h @ new @ [(c, Some e)] \<and>
                 list_all (\<lambda>x. P (fst x) \<and> ok_entry x) new \<and> P c"
  shows "confined P m"
  unfolding confined_def
proof
  fix h
  show "case m h of
            (h', Inr v) \<Rightarrow>
              (\<exists>new. h' = h @ new \<and> list_all (\<lambda>x. P (fst x) \<and> ok_entry x) new)
          | (h', Inl e) \<Rightarrow>
              (\<exists>new c. h' = h @ new @ [(c, Some e)] \<and>
                 list_all (\<lambda>x. P (fst x) \<and> ok_entry x) new \<and> P c)"
    using assms [of h] by (cases "m h") (auto split: sum.splits)
qed

lemma confined_Inr:
  assumes "confined P m" and "m h = (h', Inr v)"
  shows "\<exists>new. h' = h @ new \<and> list_all (\<lambda>x. P (fst x) \<and> ok_entry x) new"
  using assms unfolding confined_def by (auto dest!: spec [of _ h])

lemma confined_Inl:
  assumes "confined P m" and "m h = (h', Inl e)"
  shows "\<exists>new c. h' = h @ new @ [(c, Some e)] \<and>
                 list_all (\<lambda>x. P (fst x) \<and> ok_entry x) new \<and> P c"
  using assms unfolding confined_def by (auto dest!: spec [of _ h])

lemma confined_finish: "confined P (finish v)"
  by (rule confinedI) (auto simp: finish_def)

lemma confined_await: "P c \<Longrightarrow> confined P (await f c)"
  by (rule confinedI)
     (auto simp: await_def ok_entry_def split: sum.splits intro: exI [of _ "[]"])

lemma confined_and_then:
  assumes "confined P m" and "\<And>v. confined P (k v)"
  shows "confined P (and_then m k)"
proof (rule confinedI)
  fix h h' v
  assume a: "and_then m k h = (h', Inr v)"
  then obtain h1 w where m: "m h = (h1, Inr w)" and k: "k w h1 = (h', Inr v)"
    by (auto simp: and_then_def split: prod.splits sum.splits)
  from confined_Inr [OF assms(1) m] obtain n1 where
    n1: "h1 = h @ n1" "list_all (\<lambda>x. P (fst x) \<and> ok_entry x) n1" by blast
  from confined_Inr [OF assms(2) k] obtain n2 where
    n2: "h' = h1 @ n2" "list_all (\<lambda>x. P (fst x) \<and> ok_entry x) n2" by blast
  show "\<exists>new. h' = h @ new \<and> list_all (\<lambda>x. P (fst x) \<and> ok_entry x) new"
    using n1 n2 by (intro exI [of _ "n1 @ n2"]) simp
next
  fix h h' e
  assume a: "and_then m k h = (h', Inl e)"
  show "\<exists>new c. h' = h @ new @ [(c, Some e)] \<and>
                 list_all (\<lambda>x. P (fst x) \<and> ok_entry x) new \<and> P c"
  proof (cases "snd (m h)")
    case (Inl e')
    then have m: "m h = (h', Inl e)"
      using a by (auto simp: and_then_def split: prod.splits sum.splits)
    from confined_Inl [OF assms(1) m] show ?thesis .
  next
    case (Inr w)
    then obtain h1 where m: "m h = (h1, Inr w)" and k: "k w h1 = (h', Inl e)"
      using a by (auto simp: and_then_def split: prod.splits sum.splits)
    from confined_Inr [OF assms(1) m] obtain n1 where
      n1: "h1 = h @ n1" "list_all (\<lambda>x. P (fst x) \<and> ok_entry x) n1" by blast
    from confined_Inl [OF assms(2) k] obtain n2 c where
      n2: "h' = h1 @ n2 @ [(c, Some e)]" "list_all (\<lambda>x. P (fst x) \<and> ok_entry x) n2" "P c"
      by blast
    show ?thesis
      using n1 n2 by (intro exI [of _ "n1 @ n2"] exI [of _ c]) simp
  qed
qed

lemma confined_sleep: "confined setup_call (sleep ms)"
  by (simp add: sleep_def confined_await setup_call_def)

lemma confined_setup: "confined setup_call (setup_steps env request)"
  by (simp add: setup_steps_def restore_snapshot_def inject_keys_def confined_finish
      confined_and_then confined_await confined_sleep setup_call_def split: option.splits)

lemma confined_capture_framebuffer:
  "confined capture_call (capture_framebuffer env sha256 dir request result)"
  by (simp add: capture_framebuffer_def confined_finish confined_and_then confined_await
      capture_call_def Let_def)

lemma confined_capture_screenshot:
  "confined capture_call (capture_screenshot env sha256 dir request result)"
  by (simp add: capture_screenshot_def confined_finish confined_and_then confined_await
      capture_call_def split_def)

lemma confined_capture_registers:
  "confined capture_call (capture_registers env stringify dir request result)"
  by (simp add: capture_registers_def confined_finish confined_and_then confined_await
      capture_call_def)

lemma confined_capture_ranges:
  "confined capture_call (capture_ranges env sha256 dir ranges result)"
  by (induction ranges arbitrary: result)
     (simp_all add: confined_finish confined_and_then confined_await capture_call_def)

lemma confined_capture_steps:
  "confined capture_call (capture_steps env sha256 stringify dir request result)"
  by (simp add: capture_steps_def confined_and_then confined_capture_framebuffer
      confined_capture_screenshot confined_capture_registers confined_capture_ranges)

subsection \<open>The shape of a run without breakpoint\<close>

lemma run_unfold:
  assumes "breakpoint request = None"
  shows "run env sha256 stringify dir now request h
     = (case setup_steps env request h of
          (h1, Inl e) \<Rightarrow> (h1, Inl e)
        | (h1, Inr u) \<Rightarrow>
            (case on_unit env h1 Pause of
               Some e \<Rightarrow> (h1 @ [(Pause, Some e)], Inl e)
             | None \<Rightarrow>
                 (case capture_steps env sha256 stringify dir request
                         (initial_result env now request) (h1 @ [(Pause, None)]) of
                    (h2, Inl e) \<Rightarrow> (h2, Inl e)
                  | (h2, Inr result) \<Rightarrow>
                      (case on_unit env h2 Resume of
                         Some e \<Rightarrow> (h2 @ [(Resume, Some e)], Inl e)
                       | None \<Rightarrow> (h2 @ [(Resume, None)], Inr result)))))"
  using assms
  by (simp add: run_def setup_steps_def stop_guest_def and_then_def await_def unit_result_def
      finish_def split: prod.splits sum.splits option.splits)

lemma run_cases:
  assumes "breakpoint request = None"
  obtains
    (setup_failed) pre c e where
      "run env sha256 stringify dir now request [] = (pre @ [(c, Some e)], Inl e)"
      "list_all (\<lambda>x. setup_call (fst x) \<and> ok_entry x) pre" "setup_call c"
  | (pause_failed) pre e where
      "run env sha256 stringify dir now request [] = (pre @ [(Pause, Some e)], Inl e)"
      "list_all (\<lambda>x. setup_call (fst x) \<and> ok_entry x) pre"
  | (capture_failed) pre post c e where
      "run env sha256 stringify dir now request []
         = (pre @ [(Pause, None)] @ post @ [(c, Some e)], Inl e)"
      "list_all (\<lambda>x. setup_call (fst x) \<and> ok_entry x) pre"
      "list_all (\<lambda>x. capture_call (fst x) \<and> ok_entry x) post" "capture_call c"
  | (resume_failed) pre post e where
      "run env sha256 stringify dir now request []
         = (pre @ [(Pause, None)] @ post @ [(Resume, Some e)], Inl e)"
      "list_all (\<lambda>x. setup_call (fst x) \<and> ok_entry x) pre"
      "list_all (\<lambda>x. capture_call (fst x) \<and> ok_entry x) post"
  | (returned) pre post result where
      "run env sha256 stringify dir now request []
         = (pre @ [(Pause, None)] @ post @ [(Resume, None)], Inr result)"
      "list_all (\<lambda>x. setup_call (fst x) \<and> ok_entry x) pre"
      "list_all (\<lambda>x. capture_call (fst x) \<and> ok_entry x) post"
proof (cases "snd (setup_steps env request [])")
  case (Inl e)
  then obtain h1 where s: "setup_steps env request [] = (h1, Inl e)"
    by (cases "setup_steps env request []") simp
  from confined_Inl [OF confined_setup s] obtain pre c where
    p: "h1 = pre @ [(c, Some e)]" "list_all (\<lambda>x. setup_call (fst x) \<and> ok_entry x) pre"
      "setup_call c"
    by auto
  have "run env sha256 stringify dir now request [] = (pre @ [(c, Some e)], Inl e)"
    by (simp add: run_unfold [OF assms] s p(1))
  then show ?thesis
    using p(2,3) by (rule setup_failed)
next
  case (Inr u)
  then obtain pre where s: "setup_steps env request [] = (pre, Inr u)"
    by (cases "setup_steps env request []") simp
  from confined_Inr [OF confined_setup s] have
    p: "list_all (\<lambda>x. setup_call (fst x) \<and> ok_entry x) pre"
    by auto
  show ?thesis
  proof (cases "on_unit env pre Pause")
    case (Some e)
    have "run env sha256 stringify dir now request [] = (pre @ [(Pause, Some e)], Inl e)"
      by (simp add: run_unfold [OF assms] s Some)
    then show ?thesis
      using p by (rule pause_failed)
  next
    case None
    show ?thesis
    proof (cases "snd (capture_steps env sha256 stringify dir request
                         (initial_result env now request) (pre @ [(Pause, None)]))")
      case (Inl e)
      then obtain h2 where c: "capture_steps env sha256 stringify dir request
          (initial_result env now request) (pre @ [(Pause, None)]) = (h2, Inl e)"
        by (cases "capture_steps env sha256 stringify dir request
                     (initial_result env now request) (pre @ [(Pause, None)])") simp
      from confined_Inl [OF confined_capture_steps c] obtain post c' where
        q: "h2 = (pre @ [(Pause, None)]) @ post @ [(c', Some e)]"
          "list_all (\<lambda>x. capture_call (fst x) \<and> ok_entry x) post" "capture_call c'"
        by auto
      have "run env sha256 stringify dir now request []
         = (pre @ [(Pause, None)] @ post @ [(c', Some e)], Inl e)"
        by (simp add: run_unfold [OF assms] s None c q(1))
      then show ?thesis
        using p q(2,3) by (rule capture_failed)
    next
      case (Inr result)
      then obtain h2 where c: "capture_steps env sha256 stringify dir request
          (initial_result env now request) (pre @ [(Pause, None)]) = (h2, Inr result)"
        by (cases "capture_steps env sha256 stringify dir request
                     (initial_result env now request) (pre @ [(Pause, None)])") simp
      from confined_Inr [OF confined_capture_steps c] obtain post where
        q: "h2 = (pre @ [(Pause, None)]) @ post"
          "list_all (\<lambda>x. capture_call (fst x) \<and> ok_entry x) post"
        by auto
      show ?thesis
      proof (cases "on_unit env h2 Resume")
        case (Some e)
        have "run env sha256 stringify dir now request [] = (h2 @ [(Resume, Some e)], Inl e)"
          by (simp add: run_unfold [OF assms] s None c Some)
        then have "run env sha256 stringify dir now request []
           = (pre @ [(Pause, None)] @ post @ [(Resume, Some e)], Inl e)"
          by (simp add: q(1))
        then show ?thesis
          using p q(2) by (rule resume_failed)
      next
        case None': None
        have "run env sha256 stringify dir now request [] = (h2 @ [(Resume, None)], Inr result)"
          by (simp add: run_unfold [OF assms] s None c None')
        then have "run env sha256 stringify dir now request []
           = (pre @ [(Pause, None)] @ post @ [(Resume, None)], Inr result)"
          by (simp add: q(1))
        then show ?thesis
          using p q(2) by (rule returned)
      qed
    qed
  qed
qed

subsection \<open>Claim C10: pause, capture, and resume only at the end\<close>

lemma call_kinds:
  "setup_call c \<Longrightarrow> \<not> capture_call c" "setup_call c \<Longrightarrow> c \<noteq> Pause" "setup_call c \<Longrightarrow> c \<noteq> Resume"
  "capture_call c \<Longrightarrow> c \<noteq> Pause" "capture_call c \<Longrightarrow> c \<noteq> Resume"
  by (auto simp: setup_call_def capture_call_def split: call.splits)

lemma resume_iff_all_ok:
  assumes "breakpoint request = None"
  shows "list_ex is_resume (fst (run env sha256 stringify dir now request []))
       \<longleftrightarrow> list_all (\<lambda>x. is_resume x \<or> ok_entry x)
             (fst (run env sha256 stringify dir now request []))"
  using assms
  by (rule run_cases [of request env sha256 stringify dir now])
     (auto simp: list_ex_iff list_all_iff is_resume_def ok_entry_def dest: call_kinds)

lemma failure_is_result:
  assumes "breakpoint request = None"
    and "(c, Some e) \<in> set (fst (run env sha256 stringify dir now request []))"
    and "c \<noteq> Resume"
  shows "snd (run env sha256 stringify dir now request []) = Inl e"
    and "\<not> list_ex is_resume (fst (run env sha256 stringify dir now request []))"
  using assms(1)
  by (rule run_cases [of request env sha256 stringify dir now];
      use assms(2,3) in \<open>auto simp: list_ex_iff list_all_iff is_resume_def ok_entry_def
        dest: call_kinds\<close>)+

lemma returned_shape:
  assumes "breakpoint request = None"
    and "snd (run env sha256 stringify dir now request []) = Inr result"
  shows "\<exists>pre post. fst (run env sha256 stringify dir now request [])
            = pre @ [(Pause, None)] @ post @ [(Resume, None)] \<and>
          list_all (\<lambda>x. setup_call (fst x) \<and> ok_entry x) pre \<and>
          list_all (\<lambda>x. capture_call (fst x) \<and> ok_entry x) post"
  using assms(1)
  by (rule run_cases [of request env sha256 stringify dir now]; use assms(2) in auto)

lemma pause_iff_setup_ok:
  assumes "breakpoint request = None"
  shows "list_ex is_pause (fst (run env sha256 stringify dir now request []))
       \<longleftrightarrow> list_all (\<lambda>x. setup_call (fst x) \<longrightarrow> ok_entry x)
             (fst (run env sha256 stringify dir now request []))"
  using assms
  by (rule run_cases [of request env sha256 stringify dir now])
     (auto simp: list_ex_iff list_all_iff is_pause_def ok_entry_def dest: call_kinds)

lemma capture_failure_shape:
  assumes "breakpoint request = None"
    and "(c, Some e) \<in> set (fst (run env sha256 stringify dir now request []))"
    and "capture_call c"
  shows "\<exists>pre post. fst (run env sha256 stringify dir now request [])
            = pre @ [(Pause, None)] @ post @ [(c, Some e)] \<and>
          list_all (\<lambda>x. setup_call (fst x) \<and> ok_entry x) pre \<and>
          list_all (\<lambda>x. capture_call (fst x) \<and> ok_entry x) post"
  using assms(1)
proof (cases rule: run_cases [of request env sha256 stringify dir now])
  case (setup_failed pre c' e')
  with assms(2,3) show ?thesis
    by (auto simp: list_all_iff ok_entry_def dest: call_kinds)
next
  case (pause_failed pre e')
  with assms(2,3) show ?thesis
    by (auto simp: list_all_iff ok_entry_def dest: call_kinds)
next
  case (capture_failed pre post c' e')
  with assms(2) have "(c, Some e) = (c', Some e')"
    by (auto simp: list_all_iff ok_entry_def)
  with capture_failed show ?thesis
    by auto
next
  case (resume_failed pre post e')
  with assms(2,3) show ?thesis
    by (auto simp: list_all_iff ok_entry_def dest: call_kinds)
next
  case (returned pre post result)
  with assms(2,3) show ?thesis
    by (auto simp: list_all_iff ok_entry_def dest: call_kinds)
qed

lemma resume_shape:
  assumes "breakpoint request = None"
    and "list_ex is_resume (fst (run env sha256 stringify dir now request []))"
  shows "\<exists>pre post r. fst (run env sha256 stringify dir now request [])
            = pre @ [(Pause, None)] @ post @ [(Resume, r)] \<and>
          list_all (\<lambda>x. setup_call (fst x) \<and> ok_entry x) pre \<and>
          list_all (\<lambda>x. capture_call (fst x) \<and> ok_entry x) post"
  using assms(1)
  by (rule run_cases [of request env sha256 stringify dir now];
      use assms(2) in \<open>auto simp: list_ex_iff list_all_iff is_resume_def dest: call_kinds\<close>)

text \<open>
  Claim C10. When the request names no breakpoint, the pipeline pauses the backend once
  the snapshot and the keys are done, and calls \<open>resume\<close> only as its very last call. So
  \<open>resume\<close> is called exactly when every call before it succeeded; when a call other than
  \<open>resume\<close> raises, its error is the result of the run and \<open>resume\<close> is never called; and a
  run that returns ends with a successful \<open>resume\<close>. The pause is called exactly when no
  call of the snapshot and keys steps raised. When a capturing call raises (a memory read,
  the screenshot, the register read or a file write), the run consists of successful
  snapshot and keys calls, the successful pause, successful capturing calls and the call
  that raised: the backend was paused and is not resumed. And when \<open>resume\<close> is called, it
  is after the successful pause and capturing calls that all succeeded.
\<close>

theorem C10_resume_only_after_success:
  assumes "breakpoint request = None"
  shows
   "(list_ex is_resume (fst (run env sha256 stringify dir now request []))
       \<longleftrightarrow> list_all (\<lambda>x. is_resume x \<or> ok_entry x)
             (fst (run env sha256 stringify dir now request []))) \<and>
    ((c, Some e) \<in> set (fst (run env sha256 stringify dir now request [])) \<and> c \<noteq> Resume \<longrightarrow>
       snd (run env sha256 stringify dir now request []) = Inl e \<and>
       \<not> list_ex is_resume (fst (run env sha256 stringify dir now request []))) \<and>
    (snd (run env sha256 stringify dir now request []) = Inr result \<longrightarrow>
       (\<exists>h. fst (run env sha256 stringify dir now request []) = h @ [(Resume, None)] \<and>
            list_all ok_entry h \<and> \<not> list_ex is_resume h)) \<and>
    (list_ex is_pause (fst (run env sha256 stringify dir now request []))
       \<longleftrightarrow> list_all (\<lambda>x. setup_call (fst x) \<longrightarrow> ok_entry x)
             (fst (run env sha256 stringify dir now request []))) \<and>
    ((c, Some e) \<in> set (fst (run env sha256 stringify dir now request [])) \<and> capture_call c \<longrightarrow>
       snd (run env sha256 stringify dir now request []) = Inl e \<and>
       \<not> list_ex is_resume (fst (run env sha256 stringify dir now request [])) \<and>
       (\<exists>pre post. fst (run env sha256 stringify dir now request [])
            = pre @ [(Pause, None)] @ post @ [(c, Some e)] \<and>
          list_all (\<lambda>x. setup_call (fst x) \<and> ok_entry x) pre \<and>
          list_all (\<lambda>x. capture_call (fst x) \<and> ok_entry x) post)) \<and>
    (list_ex is_resume (fst (run env sha256 stringify dir now request [])) \<longrightarrow>
       (\<exists>pre post r. fst (run env sha256 stringify dir now request [])
            = pre @ [(Pause, None)] @ post @ [(Resume, r)] \<and>
          list_all (\<lambda>x. setup_call (fst x) \<and> ok_entry x) pre \<and>
          list_all (\<lambda>x. capture_call (fst x) \<and> ok_entry x) post))"
proof -
  note p1 = resume_iff_all_ok [OF assms, of env sha256 stringify dir now]
  have p2: "(c, Some e) \<in> set (fst (run env sha256 stringify dir now request [])) \<and> c \<noteq> Resume \<longrightarrow>
       snd (run env sha256 stringify dir now request []) = Inl e \<and>
       \<not> list_ex is_resume (fst (run env sha256 stringify dir now request []))"
    using failure_is_result [OF assms, of c e env sha256 stringify dir now] by blast
  have p3: "snd (run env sha256 stringify dir now request []) = Inr result \<longrightarrow>
       (\<exists>h. fst (run env sha256 stringify dir now request []) = h @ [(Resume, None)] \<and>
            list_all ok_entry h \<and> \<not> list_ex is_resume h)"
  proof
    assume "snd (run env sha256 stringify dir now request []) = Inr result"
    from returned_shape [OF assms this] obtain pre post where
      s: "fst (run env sha256 stringify dir now request [])
            = pre @ [(Pause, None)] @ post @ [(Resume, None)]"
        "list_all (\<lambda>x. setup_call (fst x) \<and> ok_entry x) pre"
        "list_all (\<lambda>x. capture_call (fst x) \<and> ok_entry x) post"
      by blast
    have "list_all ok_entry (pre @ [(Pause, None)] @ post)"
      "\<not> list_ex is_resume (pre @ [(Pause, None)] @ post)"
      using s(2,3)
      by (auto simp: list_all_iff list_ex_iff ok_entry_def is_resume_def dest: call_kinds)
    then show "\<exists>h. fst (run env sha256 stringify dir now request []) = h @ [(Resume, None)] \<and>
            list_all ok_entry h \<and> \<not> list_ex is_resume h"
      using s(1) by (intro exI [of _ "pre @ [(Pause, None)] @ post"]) simp
  qed
  note p4 = pause_iff_setup_ok [OF assms, of env sha256 stringify dir now]
  have p5: "(c, Some e) \<in> set (fst (run env sha256 stringify dir now request [])) \<and> capture_call c \<longrightarrow>
       snd (run env sha256 stringify dir now request []) = Inl e \<and>
       \<not> list_ex is_resume (fst (run env sha256 stringify dir now request [])) \<and>
       (\<exists>pre post. fst (run env sha256 stringify dir now request [])
            = pre @ [(Pause, None)] @ post @ [(c, Some e)] \<and>
          list_all (\<lambda>x. setup_call (fst x) \<and> ok_entry x) pre \<and>
          list_all (\<lambda>x. capture_call (fst x) \<and> ok_entry x) post)"
    using failure_is_result [OF assms, of c e env sha256 stringify dir now]
      capture_failure_shape [OF assms, of c e env sha256 stringify dir now]
      call_kinds(5) [of c]
    by blast
  have p6: "list_ex is_resume (fst (run env sha256 stringify dir now request [])) \<longrightarrow>
       (\<exists>pre post r. fst (run env sha256 stringify dir now request [])
            = pre @ [(Pause, None)] @ post @ [(Resume, r)] \<and>
          list_all (\<lambda>x. setup_call (fst x) \<and> ok_entry x) pre \<and>
          list_all (\<lambda>x. capture_call (fst x) \<and> ok_entry x) post)"
    using resume_shape [OF assms, of env sha256 stringify dir now] by blast
  from p1 p2 p3 p4 p5 p6 show ?thesis
    by (intro conjI)
qed

lemma framebuffer_hex: "toString16 (Num MODE_13H_ADDRESS) = ''a0000''"
  by (simp add: MODE_13H_ADDRESS_def toString16_def digits16.simps hexdigit_def)

lemma framebuffer_address:
  "parseAddress ''0xa0000''
     = \<lparr> linear = Num 655360, segOff = \<lparr> segment = Num 40960, offset = Num 0 \<rparr> \<rparr>"
  by (simp add: parseAddress_def startsWith_def parseInt_def is_space_def is_digit_def
      digit_val_def digits_value_def digit_nat_def linearToSegOff_def js_and_def js_shr_def
      toInt32_def Let_def)

lemma run_screenshot_fails:
  "run screenshot_fails hexdump (\<lambda>r. ''{}'') ''captures'' 0 plain_request []
   = ([(Pause, None),
       (ReadMemory \<lparr> linear = Num 655360, segOff = \<lparr> segment = Num 40960, offset = Num 0 \<rparr> \<rparr> 64000, None),
       (WriteFile ''captures/t1_framebuffer.bin'' (Binary [1, 2, 3]), None),
       (Screenshot, Some (Error ''QMP not connected''))],
      Inl (Error ''QMP not connected''))"
  by (simp add: run_def restore_snapshot_def inject_keys_def stop_guest_def capture_steps_def
      capture_framebuffer_def capture_screenshot_def framebuffer_hex framebuffer_address
      plain_request_def screenshot_fails_def all_succeed_def and_then_def await_def finish_def
      unit_result_def join_def MODE_13H_SIZE_def initial_result_def Let_def)

lemma run_registers_only:
  "run all_succeed hexdump (\<lambda>r. ''{}'') ''captures'' 0 registers_only []
   = ([(Pause, None), (ReadRegisters, None),
       (WriteFile ''captures/t1_registers.json'' (Text ''{}''), None), (Resume, None)],
      Inr \<lparr> result_prefix = ''t1'', framebuffer = None, screenshot = None,
            screenshotFormat = ''ppm'', result_registers = Some [(''eax'', 1)],
            memoryDumps = [], checksums = [], timestamp = 0 \<rparr>)"
  by (simp add: run_def restore_snapshot_def inject_keys_def stop_guest_def capture_steps_def
      capture_framebuffer_def capture_screenshot_def capture_registers_def or_default_def
      registers_only_def plain_request_def all_succeed_def and_then_def await_def finish_def
      unit_result_def join_def initial_result_def Let_def)

theorem C10_resume_only_after_success_witness:
  "breakpoint plain_request = None \<and>
   (Screenshot, Some (Error ''QMP not connected''))
     \<in> set (fst (run screenshot_fails hexdump (\<lambda>r. ''{}'') ''captures'' 0 plain_request [])) \<and>
   Screenshot \<noteq> Resume \<and>
   capture_call Screenshot \<and>
   snd (run screenshot_fails hexdump (\<lambda>r. ''{}'') ''captures'' 0 plain_request [])
     = Inl (Error ''QMP not connected'') \<and>
   (Pause, None)
     \<in> set (fst (run screenshot_fails hexdump (\<lambda>r. ''{}'') ''captures'' 0 plain_request [])) \<and>
   \<not> list_ex is_resume
       (fst (run screenshot_fails hexdump (\<lambda>r. ''{}'') ''captures'' 0 plain_request [])) \<and>
   breakpoint registers_only = None \<and>
   snd (run all_succeed hexdump (\<lambda>r. ''{}'') ''captures'' 0 registers_only [])
     = Inr \<lparr> result_prefix = ''t1'', framebuffer = None, screenshot = None,
            screenshotFormat = ''ppm'', result_registers = Some [(''eax'', 1)],
            memoryDumps = [], checksums = [], timestamp = 0 \<rparr> \<and>
   list_ex is_resume (fst (run all_succeed hexdump (\<lambda>r. ''{}'') ''captures'' 0 registers_only [])) \<and>
   list_all (\<lambda>x. is_resume x \<or> ok_entry x)
     (fst (run all_succeed hexdump (\<lambda>r. ''{}'') ''captures'' 0 registers_only [])) \<and>
   list_all (\<lambda>x. setup_call (fst x) \<longrightarrow> ok_entry x)
     (fst (run all_succeed hexdump (\<lambda>r. ''{}'') ''captures'' 0 registers_only [])) \<and>
   list_ex is_pause (fst (run all_succeed hexdump (\<lambda>r. ''{}'') ''captures'' 0 registers_only [])) \<and>
   (Pause, None)
     \<in> set (fst (run all_succeed hexdump (\<lambda>r. ''{}'') ''captures'' 0 registers_only []))"
proof -
  have h1: "breakpoint plain_request = None"
    by (simp add: plain_request_def)
  have h2: "breakpoint registers_only = None"
    by (simp add: registers_only_def plain_request_def)
  note t1 = C10_resume_only_after_success [OF h1, of screenshot_fails hexdump "\<lambda>r. ''{}''"
      "''captures''" 0 Screenshot "Error ''QMP not connected''"
      "initial_result screenshot_fails 0 plain_request"]
  note t2 = C10_resume_only_after_success [OF h2, of all_succeed hexdump "\<lambda>r. ''{}''"
      "''captures''" 0 Screenshot "Error ''QMP not connected''"
      "\<lparr> result_prefix = ''t1'', framebuffer = None, screenshot = None,
            screenshotFormat = ''ppm'', result_registers = Some [(''eax'', 1)],
            memoryDumps = [], checksums = [], timestamp = 0 \<rparr>"]
  have m: "(Screenshot, Some (Error ''QMP not connected''))
     \<in> set (fst (run screenshot_fails hexdump (\<lambda>r. ''{}'') ''captures'' 0 plain_request []))"
    by (simp add: run_screenshot_fails)
  have ne: "Screenshot \<noteq> Resume"
    by simp
  have cc: "capture_call Screenshot"
    by (simp add: capture_call_def)
  from t1 m cc have c1:
    "snd (run screenshot_fails hexdump (\<lambda>r. ''{}'') ''captures'' 0 plain_request [])
       = Inl (Error ''QMP not connected'')"
    "\<not> list_ex is_resume
       (fst (run screenshot_fails hexdump (\<lambda>r. ''{}'') ''captures'' 0 plain_request []))"
    by blast+
  from t1 m cc obtain pre post where
    "fst (run screenshot_fails hexdump (\<lambda>r. ''{}'') ''captures'' 0 plain_request [])
       = pre @ [(Pause, None)] @ post @ [(Screenshot, Some (Error ''QMP not connected''))]"
    by blast
  then have c1p: "(Pause, None)
     \<in> set (fst (run screenshot_fails hexdump (\<lambda>r. ''{}'') ''captures'' 0 plain_request []))"
    by simp
  have ok: "snd (run all_succeed hexdump (\<lambda>r. ''{}'') ''captures'' 0 registers_only [])
     = Inr \<lparr> result_prefix = ''t1'', framebuffer = None, screenshot = None,
            screenshotFormat = ''ppm'', result_registers = Some [(''eax'', 1)],
            memoryDumps = [], checksums = [], timestamp = 0 \<rparr>"
    by (simp add: run_registers_only)
  from t2 ok obtain h where
    "fst (run all_succeed hexdump (\<lambda>r. ''{}'') ''captures'' 0 registers_only [])
       = h @ [(Resume, None)]"
    by blast
  then have c2: "list_ex is_resume
      (fst (run all_succeed hexdump (\<lambda>r. ''{}'') ''captures'' 0 registers_only []))"
    by (simp add: is_resume_def)
  with t2 have c3: "list_all (\<lambda>x. is_resume x \<or> ok_entry x)
     (fst (run all_succeed hexdump (\<lambda>r. ''{}'') ''captures'' 0 registers_only []))"
    by blast
  have s2: "list_all (\<lambda>x. setup_call (fst x) \<longrightarrow> ok_entry x)
     (fst (run all_succeed hexdump (\<lambda>r. ''{}'') ''captures'' 0 registers_only []))"
    by (simp add: run_registers_only ok_entry_def)
  with t2 have c4: "list_ex is_pause
      (fst (run all_succeed hexdump (\<lambda>r. ''{}'') ''captures'' 0 registers_only []))"
    by blast
  from t2 c2 obtain pre post r where
    "fst (run all_succeed hexdump (\<lambda>r. ''{}'') ''captures'' 0 registers_only [])
       = pre @ [(Pause, None)] @ post @ [(Resume, r)]"
    by blast
  then have c5: "(Pause, None)
     \<in> set (fst (run all_succeed hexdump (\<lambda>r. ''{}'') ''captures'' 0 registers_only []))"
    by simp
  from h1 m ne cc c1(1) c1p c1(2) h2 ok c2 c3 s2 c4 c5 show ?thesis
    by (intro conjI)
qed

section \<open>Properties of the session-based backend\<close>

text \<open>
  Claim C8, as far as the code goes. On the session-based backend \<open>writeMemory\<close>,
  \<open>screenshot\<close>, \<open>setBreakpoint\<close>, \<open>step\<close>, \<open>saveSnapshot\<close> and \<open>loadSnapshot\<close> raise a plain
  \<open>Error\<close> whose message explains why the operation is not available. \<open>removeBreakpoint\<close>,
  \<open>pause\<close> and \<open>resume\<close> do nothing and succeed, and \<open>listBreakpoints\<close> returns the empty
  list. \<open>readMemory\<close>, \<open>sendKeys\<close>, \<open>readRegisters\<close> and \<open>capture\<close> are served through a
  session: with a DOSBox-X binary present, \<open>sendKeys\<close> returns, \<open>readRegisters\<close> returns the
  registers read from the log, \<open>capture\<close> returns a result, and \<open>readMemory\<close> returns the
  bytes of the dump file the session left behind.
\<close>

theorem C8_dosbox_operations:
  "dosbox_writeMemory b address data
     = Inl (Error ''DOSBox-X does not support live memory writes from host'') \<and>
   dosbox_screenshot b
     = Inl (Error ''Screenshots require interactive DOSBox-X session (Ctrl+F5)'') \<and>
   dosbox_setBreakpoint b ty address
     = Inl (Error ''Breakpoints in DOSBox-X are set via debug scripts, not live'') \<and>
   dosbox_step b = Inl (Error ''Stepping in DOSBox-X requires a debug session'') \<and>
   dosbox_saveSnapshot b name
     = Inl (Error ''Save states in DOSBox-X are created interactively'') \<and>
   dosbox_loadSnapshot b name
     = Inl (Error ''Save states in DOSBox-X are loaded interactively'') \<and>
   dosbox_removeBreakpoint b ident = Inr () \<and>
   dosbox_pause b = Inr () \<and>
   dosbox_resume b = Inr () \<and>
   dosbox_listBreakpoints b = Inr [] \<and>
   (binary_found env \<longrightarrow>
      dosbox_sendKeys env b ks = Inr () \<and>
      dosbox_readRegisters env b
        = Inr (log_registers env (join (confDir b) ''_regs.conf'') (join (capturesDir b) ''_regs.log'')) \<and>
      (\<exists>result. dosbox_capture env sha256 now b request = Inr result) \<and>
      (files_after env (join (confDir b) ''_mem_read.conf'')
         (join (capturesDir b) (''_mem_'' @ digits10 now @ ''.bin'')) = Some dump \<longrightarrow>
       dosbox_readMemory env now b address sz = Inr dump))"
  by (simp add: dosbox_writeMemory_def dosbox_screenshot_def dosbox_setBreakpoint_def
      dosbox_step_def dosbox_saveSnapshot_def dosbox_loadSnapshot_def
      dosbox_removeBreakpoint_def dosbox_pause_def dosbox_resume_def dosbox_listBreakpoints_def
      dosbox_sendKeys_def dosbox_readRegisters_def dosbox_capture_def dosbox_readMemory_def
      session_launch_def Let_def)

theorem C8_dosbox_operations_witness:
  "binary_found session_env0 \<and>
   dosbox_sendKeys session_env0 dosbox0 [''right'', ''ret''] = Inr () \<and>
   dosbox_readRegisters session_env0 dosbox0 = Inr [(''eax'', 1)] \<and>
   files_after session_env0 (join (confDir dosbox0) ''_mem_read.conf'')
      (join (capturesDir dosbox0) (''_mem_'' @ digits10 0 @ ''.bin'')) = Some [1, 2, 3] \<and>
   dosbox_readMemory session_env0 0 dosbox0 (parseAddress ''A000:0000'') 3 = Inr [1, 2, 3]"
proof -
  have h1: "binary_found session_env0"
    by (simp add: session_env0_def)
  have h2: "files_after session_env0 (join (confDir dosbox0) ''_mem_read.conf'')
      (join (capturesDir dosbox0) (''_mem_'' @ digits10 0 @ ''.bin'')) = Some [1, 2, 3]"
    by (simp add: session_env0_def dosbox0_def join_def digits10.simps hexdigit_def)
  note t = C8_dosbox_operations [of dosbox0 "parseAddress ''A000:0000''" "[]" Execution "''s''"
      "''bp_1''" session_env0 "[''right'', ''ret'']" hexdump 0 plain_request "[1, 2, 3]" 3]
  from t h1 have c1: "dosbox_sendKeys session_env0 dosbox0 [''right'', ''ret''] = Inr ()"
    by blast
  from t h1 have "dosbox_readRegisters session_env0 dosbox0
        = Inr (log_registers session_env0 (join (confDir dosbox0) ''_regs.conf'')
                 (join (capturesDir dosbox0) ''_regs.log''))"
    by blast
  then have c2: "dosbox_readRegisters session_env0 dosbox0 = Inr [(''eax'', 1)]"
    by (simp add: session_env0_def)
  from t h1 h2 have c3:
    "dosbox_readMemory session_env0 0 dosbox0 (parseAddress ''A000:0000'') 3 = Inr [1, 2, 3]"
    by blast
  from h1 c1 c2 h2 c3 show ?thesis
    by (intro conjI)
qed

text \<open>
  The claim as written fails for \<open>pause\<close> (and likewise \<open>resume\<close>, \<open>removeBreakpoint\<close> and
  \<open>listBreakpoints\<close>): on the session-based backend it raises nothing, and the route
  \<open>POST /execution/pause\<close> answers 200 with the registers read from the log.
\<close>

theorem C8_counterexample_pause_succeeds:
  "dosbox_pause dosbox0 = Inr () \<and>
   dosbox_resume dosbox0 = Inr () \<and>
   dosbox_removeBreakpoint dosbox0 ''bp_1'' = Inr () \<and>
   dosbox_listBreakpoints dosbox0 = Inr [] \<and>
   execution_pause (Some (dosbox_pause dosbox0, dosbox_readRegisters session_env0 dosbox0))
     = Response 200 (PausedBody [(''eax'', 1)])"
  by (simp add: dosbox_pause_def dosbox_resume_def dosbox_removeBreakpoint_def
      dosbox_listBreakpoints_def execution_pause_def dosbox_readRegisters_def
      session_launch_def session_env0_def Let_def)

section \<open>Properties of the memory watches\<close>

subsection \<open>One poll\<close>

lemma sent_clear_inFlight [simp]: "ws_sent (clear_inFlight ident s) = ws_sent s"
  by (simp add: clear_inFlight_def split: option.splits)

lemma complete_sent_data:
  assumes "store s r = Some w"
  shows "ws_sent (complete H (c, r) (Inr data) s)
       = ws_sent s @ (if Some (H data) \<noteq> lastHash w then update_frames H c data else [])"
  using assms by (simp add: complete_def update_frames_def)

lemma complete_sent_error: "ws_sent (complete H p (Inl e) s) = ws_sent s"
  by (cases p) (simp add: complete_def)

lemma tick_suspended: "watchesSuspended s \<Longrightarrow> tick t s = (s, None)"
  by (simp add: tick_def split: option.splits)

lemma tick_sends_nothing: "ws_sent (fst (tick t s)) = ws_sent s"
  by (simp add: tick_def split: option.splits)

subsection \<open>Invalidation\<close>

lemma fold_invalidate:
  "fold invalidate rs st r
     = (if r \<in> set rs then map_option (\<lambda>w. w\<lparr>lastHash := None\<rparr>) (st r) else st r)"
proof (induction rs arbitrary: st)
  case Nil
  show ?case by simp
next
  case (Cons a rs)
  have "fold invalidate (a # rs) st r = fold invalidate rs (invalidate a st) r"
    by simp
  also have "\<dots> = (if r \<in> set rs
      then map_option (\<lambda>w. w\<lparr>lastHash := None\<rparr>) (invalidate a st r) else invalidate a st r)"
    by (rule Cons.IH)
  also have "\<dots> = (if r \<in> set (a # rs)
      then map_option (\<lambda>w. w\<lparr>lastHash := None\<rparr>) (st r) else st r)"
    by (cases "st a") (auto simp: invalidate_def)
  finally show ?case .
qed

lemma resume_store:
  "store (resumeAllWatches True s) r
     = (if r \<in> snd ` set (watches s) then map_option (\<lambda>w. w\<lparr>lastHash := None\<rparr>) (store s r)
        else store s r)"
  by (simp add: resumeAllWatches_def invalidateAllWatches_def fold_invalidate)

lemma resume_other [simp]:
  "watchesSuspended (resumeAllWatches True s) = False"
  "watches (resumeAllWatches True s) = watches s"
  "fresh (resumeAllWatches True s) = fresh s"
  "ws_sent (resumeAllWatches True s) = ws_sent s"
  by (simp_all add: resumeAllWatches_def invalidateAllWatches_def)

subsection \<open>What each handler leaves alone\<close>

lemma stop_fields [simp]:
  "store (stopMemoryWatch ident s) = store s"
  "fresh (stopMemoryWatch ident s) = fresh s"
  "ws_sent (stopMemoryWatch ident s) = ws_sent s"
  "watchesSuspended (stopMemoryWatch ident s) = watchesSuspended s"
  by (simp_all add: stopMemoryWatch_def split: option.splits)

lemma set_table_delete: "set (table_delete k t) \<subseteq> set t"
  by (auto simp: table_delete_def)

lemma set_table_set: "set (table_set k v t) \<subseteq> insert (k, v) (set t)"
  by (induction t) (auto split: if_splits)

lemma stop_watches: "set (watches (stopMemoryWatch ident s)) \<subseteq> set (watches s)"
  using set_table_delete [of ident "watches s"]
  by (auto simp: stopMemoryWatch_def split: option.splits)

lemma fold_stop_fields:
  "store (fold stopMemoryWatch ids s) = store s \<and>
   fresh (fold stopMemoryWatch ids s) = fresh s \<and>
   set (watches (fold stopMemoryWatch ids s)) \<subseteq> set (watches s)"
proof (induction ids arbitrary: s)
  case Nil
  show ?case by simp
next
  case (Cons a ids)
  from Cons.IH [of "stopMemoryWatch a s"] stop_watches [of a s] show ?case
    by auto
qed

lemma start_fields:
  "store (startMemoryWatch ws ident address sz interval s)
     = (store s)(fresh s := Some \<lparr> watch_id = ident, watch_address = address,
                                  watch_size = sz, intervalMs = max interval MIN_INTERVAL_MS,
                                  timer = fresh s, lastHash = None, inFlight = False \<rparr>)"
  "fresh (startMemoryWatch ws ident address sz interval s) = Suc (fresh s)"
  "set (watches (startMemoryWatch ws ident address sz interval s))
     \<subseteq> insert (ident, fresh s) (set (watches s))"
proof -
  show "store (startMemoryWatch ws ident address sz interval s)
     = (store s)(fresh s := Some \<lparr> watch_id = ident, watch_address = address,
                                  watch_size = sz, intervalMs = max interval MIN_INTERVAL_MS,
                                  timer = fresh s, lastHash = None, inFlight = False \<rparr>)"
    by (simp add: startMemoryWatch_def Let_def)
  show "fresh (startMemoryWatch ws ident address sz interval s) = Suc (fresh s)"
    by (simp add: startMemoryWatch_def Let_def)
  have "set (watches (startMemoryWatch ws ident address sz interval s))
     \<subseteq> insert (ident, fresh s) (set (watches (stopMemoryWatch ident s)))"
    using set_table_set [of ident "fresh s" "watches (stopMemoryWatch ident s)"]
    by (simp add: startMemoryWatch_def Let_def)
  then show "set (watches (startMemoryWatch ws ident address sz interval s))
     \<subseteq> insert (ident, fresh s) (set (watches s))"
    using stop_watches [of ident s] by auto
qed

lemma clear_fields [simp]:
  "fresh (clear_inFlight ident s) = fresh s"
  "watches (clear_inFlight ident s) = watches s"
  by (simp_all add: clear_inFlight_def split: option.splits)

lemma clear_store:
  "store (clear_inFlight ident s) r = None \<longleftrightarrow> store s r = None"
  "store s r = Some w \<Longrightarrow>
     \<exists>w'. store (clear_inFlight ident s) r = Some w' \<and> lastHash w' = lastHash w"
  by (auto simp: clear_inFlight_def split: option.splits)

lemma tick_fields [simp]:
  "fresh (fst (tick t s)) = fresh s"
  "watches (fst (tick t s)) = watches s"
  by (simp_all add: tick_def split: option.splits)

lemma tick_store:
  "store (fst (tick t s)) r = None \<longleftrightarrow> store s r = None"
  "store s r = Some w \<Longrightarrow> \<exists>w'. store (fst (tick t s)) r = Some w' \<and> lastHash w' = lastHash w"
  by (auto simp: tick_def split: option.splits)

lemma complete_fields [simp]:
  "fresh (complete H p result s) = fresh s"
  "watches (complete H p result s) = watches s"
  by (cases p; simp add: complete_def split: sum.splits option.splits)+

lemma complete_store_None:
  "store (complete H p result s) r = None \<longleftrightarrow> store s r = None"
  by (cases p) (auto simp: complete_def clear_store(1) split: sum.splits option.splits)

lemma complete_store_other:
  assumes "store s r = Some w" and "\<not> reports_on r (Poll_settles p result)"
  shows "\<exists>w'. store (complete H p result s) r = Some w' \<and> lastHash w' = lastHash w"
proof (cases p)
  case (Pair c r')
  show ?thesis
  proof (cases result)
    case (Inl e)
    then show ?thesis
      using clear_store(2) [OF assms(1)] Pair by (simp add: complete_def)
  next
    case (Inr data)
    then have ne: "r' \<noteq> r"
      using assms(2) Pair by (simp add: reports_on_def)
    show ?thesis
    proof (cases "store s r'")
      case None
      then show ?thesis
        using clear_store(2) [OF assms(1)] Pair Inr by (simp add: complete_def)
    next
      case (Some w2)
      show ?thesis
      proof (cases "Some (H data) \<noteq> lastHash w2")
        case False
        then show ?thesis
          using clear_store(2) [OF assms(1)] Pair Inr Some by (simp add: complete_def)
      next
        case True
        let ?s1 = "s\<lparr>store := (store s)(r' := Some (w2\<lparr>lastHash := Some (H data)\<rparr>)),
                     ws_sent := ws_sent s @
                       [(closure_ws c,
                         MemoryUpdate (closure_id c) (closure_address c) (length data) (H data)),
                        (closure_ws c, BinaryFrame data)]\<rparr>"
        have "store ?s1 r = Some w"
          using assms(1) ne by simp
        from clear_store(2) [OF this, of "closure_id c"] show ?thesis
          using Pair Inr Some True by (simp add: complete_def)
      qed
    qed
  qed
qed

subsection \<open>A watch whose digest is cleared stays so until its next successful read\<close>

lemma unreportedI:
  assumes "store s r = Some w" and "lastHash w = None" and "r < fresh s"
  shows "unreported r s"
  using assms by (simp add: unreported_def)

lemma unreportedE:
  assumes "unreported r s"
  obtains w where "store s r = Some w" and "lastHash w = None" and "r < fresh s"
  using assms by (auto simp: unreported_def split: option.splits)

lemma unreported_step:
  assumes u: "unreported r s" and n: "\<not> reports_on r ev"
  shows "unreported r (step H ev s)"
proof -
  from u obtain w where w: "store s r = Some w" "lastHash w = None" "r < fresh s"
    by (rule unreportedE)
  show ?thesis
  proof (cases ev)
    case (Watch_msg ws ident address sz interval)
    have "store (startMemoryWatch ws ident address sz interval s) r = Some w"
      using w by (simp add: start_fields(1))
    then show ?thesis
      using w Watch_msg by (intro unreportedI [of _ _ w]) (simp_all add: step_def start_fields(2))
  next
    case (Unwatch_msg ident)
    then show ?thesis
      using w by (intro unreportedI [of _ _ w]) (simp_all add: step_def)
  next
    case (Backend_event e)
    show ?thesis
    proof (cases e)
      case (StatusEvent st)
      then show ?thesis
        using u Backend_event by (simp add: step_def on_backend_event_def)
    next
      case (SnapshotLoading name)
      then show ?thesis
        using w Backend_event
        by (intro unreportedI [of _ _ w])
           (simp_all add: step_def on_backend_event_def suspendAllWatches_def)
    next
      case (SnapshotLoaded name)
      have "store (resumeAllWatches True s) r = Some w \<or>
            store (resumeAllWatches True s) r = Some (w\<lparr>lastHash := None\<rparr>)"
        using w by (simp add: resume_store)
      then show ?thesis
        using w Backend_event SnapshotLoaded
        by (auto simp: step_def on_backend_event_def unreported_def)
    next
      case (SnapshotLoadFailed name msg)
      have "store (resumeAllWatches True s) r = Some w \<or>
            store (resumeAllWatches True s) r = Some (w\<lparr>lastHash := None\<rparr>)"
        using w by (simp add: resume_store)
      then show ?thesis
        using w Backend_event SnapshotLoadFailed
        by (auto simp: step_def on_backend_event_def unreported_def)
    qed
  next
    case (Timer_fires t)
    from tick_store(2) [OF w(1), of t] obtain w' where
      "store (fst (tick t s)) r = Some w'" "lastHash w' = lastHash w" by blast
    then show ?thesis
      using w Timer_fires by (intro unreportedI [of _ _ w']) (simp_all add: step_def)
  next
    case (Poll_settles p result)
    then have "\<not> reports_on r (Poll_settles p result)"
      using n by simp
    from complete_store_other [OF w(1) this, of H] obtain w' where
      "store (complete H p result s) r = Some w'" "lastHash w' = lastHash w" by blast
    then show ?thesis
      using w Poll_settles by (intro unreportedI [of _ _ w']) (simp_all add: step_def)
  next
    case (Socket_closes ws)
    then show ?thesis
      using w by (intro unreportedI [of _ _ w]) (simp_all add: step_def on_ws_close_def)
  next
    case Server_closes
    then show ?thesis
      using w fold_stop_fields [of "map fst (watches s)" s]
      by (intro unreportedI [of _ _ w]) (simp_all add: step_def on_server_close_def stopAllWatches_def)
  qed
qed

lemma unreported_steps:
  assumes "unreported r s" and "list_all (\<lambda>ev. \<not> reports_on r ev) evs"
  shows "unreported r (steps H evs s)"
  using assms
proof (induction evs arbitrary: s)
  case Nil
  then show ?case by (simp add: steps_def)
next
  case (Cons ev evs)
  from Cons.prems have "unreported r (step H ev s)"
    by (simp add: unreported_step)
  with Cons.IH [of "step H ev s"] Cons.prems(2) show ?case
    by (simp add: steps_def)
qed

subsection \<open>Registered watches are allocated objects\<close>

lemma well_formedI:
  assumes "\<And>ident r. (ident, r) \<in> set (watches s) \<Longrightarrow> r < fresh s \<and> store s r \<noteq> None"
  shows "well_formed s"
  using assms by (auto simp: well_formed_def list_all_iff)

lemma well_formedD:
  assumes "well_formed s" and "(ident, r) \<in> set (watches s)"
  shows "r < fresh s" and "store s r \<noteq> None"
  using assms by (auto simp: well_formed_def list_all_iff)

lemma well_formed_step:
  assumes wf: "well_formed s"
  shows "well_formed (step H ev s)"
proof (cases ev)
  case (Watch_msg ws ident address sz interval)
  show ?thesis
  proof (rule well_formedI)
    fix k r
    assume "(k, r) \<in> set (watches (step H ev s))"
    then have "(k, r) = (ident, fresh s) \<or> (k, r) \<in> set (watches s)"
      using start_fields(3) [of ws ident address sz interval s] Watch_msg
      by (auto simp: step_def)
    then show "r < fresh (step H ev s) \<and> store (step H ev s) r \<noteq> None"
    proof
      assume "(k, r) = (ident, fresh s)"
      then show ?thesis
        using Watch_msg by (simp add: step_def start_fields(1,2))
    next
      assume "(k, r) \<in> set (watches s)"
      from well_formedD [OF wf this] show ?thesis
        using Watch_msg by (simp add: step_def start_fields(1,2))
    qed
  qed
next
  case (Unwatch_msg ident)
  show ?thesis
  proof (rule well_formedI)
    fix k r
    assume "(k, r) \<in> set (watches (step H ev s))"
    then have "(k, r) \<in> set (watches s)"
      using stop_watches [of ident s] Unwatch_msg by (auto simp: step_def)
    from well_formedD [OF wf this] show "r < fresh (step H ev s) \<and> store (step H ev s) r \<noteq> None"
      using Unwatch_msg by (simp add: step_def)
  qed
next
  case (Backend_event e)
  show ?thesis
  proof (rule well_formedI)
    fix k r
    assume "(k, r) \<in> set (watches (step H ev s))"
    then have m: "(k, r) \<in> set (watches s)"
      using Backend_event
      by (cases e) (simp_all add: step_def on_backend_event_def suspendAllWatches_def)
    from well_formedD [OF wf m] show "r < fresh (step H ev s) \<and> store (step H ev s) r \<noteq> None"
      using Backend_event
      by (cases e)
         (auto simp: step_def on_backend_event_def suspendAllWatches_def resume_store)
  qed
next
  case (Timer_fires t)
  show ?thesis
  proof (rule well_formedI)
    fix k r
    assume "(k, r) \<in> set (watches (step H ev s))"
    then have m: "(k, r) \<in> set (watches s)"
      using Timer_fires by (simp add: step_def)
    from well_formedD [OF wf m] show "r < fresh (step H ev s) \<and> store (step H ev s) r \<noteq> None"
      using Timer_fires by (simp add: step_def tick_store(1))
  qed
next
  case (Poll_settles p result)
  show ?thesis
  proof (rule well_formedI)
    fix k r
    assume "(k, r) \<in> set (watches (step H ev s))"
    then have m: "(k, r) \<in> set (watches s)"
      using Poll_settles by (simp add: step_def)
    from well_formedD [OF wf m] show "r < fresh (step H ev s) \<and> store (step H ev s) r \<noteq> None"
      using Poll_settles by (simp add: step_def complete_store_None)
  qed
next
  case (Socket_closes ws)
  then show ?thesis
    using wf by (simp add: step_def on_ws_close_def well_formed_def)
next
  case Server_closes
  show ?thesis
  proof (rule well_formedI)
    fix k r
    assume "(k, r) \<in> set (watches (step H ev s))"
    then have m: "(k, r) \<in> set (watches s)"
      using Server_closes fold_stop_fields [of "map fst (watches s)" s]
      by (auto simp: step_def on_server_close_def stopAllWatches_def)
    from well_formedD [OF wf m] show "r < fresh (step H ev s) \<and> store (step H ev s) r \<noteq> None"
      using Server_closes fold_stop_fields [of "map fst (watches s)" s]
      by (simp add: step_def on_server_close_def stopAllWatches_def)
  qed
qed

lemma well_formed_steps: "well_formed s \<Longrightarrow> well_formed (steps H evs s)"
proof (induction evs arbitrary: s)
  case Nil
  then show ?case by (simp add: steps_def)
next
  case (Cons ev evs)
  from Cons.IH [OF well_formed_step [OF Cons.prems, of H ev]] show ?case
    by (simp add: steps_def)
qed

lemma well_formed_broker0: "well_formed broker0"
  by (simp add: well_formed_def broker0_def)

lemma resume_invalidates:
  assumes "well_formed s" and "(ident, r) \<in> set (watches s)"
  shows "unreported r (resumeAllWatches True s)"
proof -
  from well_formedD [OF assms] obtain w where w: "store s r = Some w" "r < fresh s"
    by auto
  have "r \<in> snd ` set (watches s)"
    using assms(2) by force
  then have "store (resumeAllWatches True s) r = Some (w\<lparr>lastHash := None\<rparr>)"
    using w by (simp add: resume_store)
  then show ?thesis
    using w by (intro unreportedI [of _ _ "w\<lparr>lastHash := None\<rparr>"]) simp_all
qed

lemma first_poll_reports:
  assumes "unreported r s"
  shows "ws_sent (complete H (c, r) (Inr data) s) = ws_sent s @ update_frames H c data"
proof -
  from assms obtain w where w: "store s r = Some w" "lastHash w = None"
    by (rule unreportedE)
  show ?thesis
    using w by (simp add: complete_sent_data [OF w(1)])
qed

subsection \<open>A tick starts a poll, a poll stores its digest\<close>

lemma tick_polls:
  assumes "map_of (timers s) t = Some c" and "map_of (watches s) (closure_id c) = Some r"
    and "store s r = Some w" and "\<not> inFlight w" and "\<not> watchesSuspended s"
  shows "tick t s = (s\<lparr>store := (store s)(r := Some (w\<lparr>inFlight := True\<rparr>))\<rparr>, Some (c, r))"
  using assms by (simp add: tick_def)

lemma tick_poll_iff:
  "snd (tick t s) = Some (c, r) \<longleftrightarrow>
     map_of (timers s) t = Some c \<and> map_of (watches s) (closure_id c) = Some r \<and>
     (\<exists>w. store s r = Some w \<and> \<not> inFlight w) \<and> \<not> watchesSuspended s"
  by (auto simp: tick_def split: option.splits)

lemma poll_after_tick:
  assumes "map_of (timers s) t = Some c" and "map_of (watches s) (closure_id c) = Some r"
    and "store s r = Some w" and "\<not> inFlight w" and "\<not> watchesSuspended s"
  shows "ws_sent (complete H (c, r) (Inr data) (fst (tick t s)))
       = ws_sent s @ (if Some (H data) \<noteq> lastHash w then update_frames H c data else [])"
    and "store (complete H (c, r) (Inr data) (fst (tick t s))) r
       = Some (w\<lparr>lastHash := Some (H data), inFlight := False\<rparr>)"
proof -
  note t = tick_polls [OF assms]
  show "ws_sent (complete H (c, r) (Inr data) (fst (tick t s)))
       = ws_sent s @ (if Some (H data) \<noteq> lastHash w then update_frames H c data else [])"
    by (simp add: t complete_def update_frames_def)
  show "store (complete H (c, r) (Inr data) (fst (tick t s))) r
       = Some (w\<lparr>lastHash := Some (H data), inFlight := False\<rparr>)"
    using assms(2) by (cases w) (auto simp: t complete_def clear_inFlight_def)
qed

lemma complete_stores_digest:
  assumes "store s r = Some w"
  shows "\<exists>w'. store (complete H (c, r) (Inr data) s) r = Some w' \<and> lastHash w' = Some (H data)"
  using assms by (auto simp: complete_def clear_inFlight_def split: option.splits)

lemma complete_error_keeps_digest:
  assumes "store s r = Some w"
  shows "\<exists>w'. store (complete H (c, r) (Inl e) s) r = Some w' \<and> lastHash w' = lastHash w"
  using assms by (auto simp: complete_def clear_inFlight_def split: option.splits)

lemma repeated_poll_silent:
  assumes "store s r = Some w"
  shows "ws_sent (complete H (c', r) (Inr data) (complete H (c, r) (Inr data) s))
       = ws_sent (complete H (c, r) (Inr data) s)"
proof -
  from complete_stores_digest [OF assms, of H c data] obtain w' where
    w': "store (complete H (c, r) (Inr data) s) r = Some w'" "lastHash w' = Some (H data)"
    by blast
  show ?thesis
    by (simp add: complete_sent_data [OF w'(1)] w'(2))
qed

lemma resume_timers [simp]: "timers (resumeAllWatches True s) = timers s"
  by (simp add: resumeAllWatches_def invalidateAllWatches_def)

lemma tick_after_resume:
  assumes "map_of (timers s) t = Some c" and "map_of (watches s) (closure_id c) = Some r"
    and "store s r = Some w" and "\<not> inFlight w"
  shows "snd (tick t (resumeAllWatches True s)) = Some (c, r)"
proof -
  have "r \<in> snd ` set (watches s)"
    using map_of_SomeD [OF assms(2)] by force
  then have "store (resumeAllWatches True s) r = Some (w\<lparr>lastHash := None\<rparr>)"
    using assms(3) by (simp add: resume_store)
  then show ?thesis
    using assms by (simp add: tick_poll_iff)
qed

subsection \<open>Polls, suspension and invalidation\<close>

text \<open>
  Claim C3. A timer tick starts a poll exactly when its watch is registered, has no poll in
  flight and the watches are not suspended; the tick itself sends nothing. A poll that
  read bytes sends the \<open>memory:update\<close> metadata frame followed by the binary frame exactly
  when the digest of the bytes differs from the \<open>lastHash\<close> of its watch, and afterwards that
  digest is the \<open>lastHash\<close>, so that the same bytes read again send nothing; a poll whose
  read failed sends nothing and leaves \<open>lastHash\<close> as it was. The \<open>snapshot:loading\<close> listener
  suspends the watches, and while they are suspended a timer tick returns without polling.
  The \<open>snapshot:loaded\<close> and \<open>snapshot:load-failed\<close> listeners resume them, so that a tick of
  a registered watch polls again, and clear the \<open>lastHash\<close> of every registered watch;
  whatever happens next, the first poll of such a watch that reads bytes afterwards sends
  both frames, whatever the bytes are.
\<close>

theorem C3_watch_reports_on_change:
  "(store s r = Some w \<longrightarrow>
      ws_sent (complete sha256 (c, r) (Inr data) s)
        = ws_sent s @
          (if Some (sha256 data) \<noteq> lastHash w
           then [(closure_ws c,
                  MemoryUpdate (closure_id c) (closure_address c) (length data) (sha256 data)),
                 (closure_ws c, BinaryFrame data)]
           else []) \<and>
      (\<exists>w'. store (complete sha256 (c, r) (Inr data) s) r = Some w' \<and>
            lastHash w' = Some (sha256 data)) \<and>
      ws_sent (complete sha256 (c, r) (Inr data) (complete sha256 (c, r) (Inr data) s))
        = ws_sent (complete sha256 (c, r) (Inr data) s)) \<and>
   ws_sent (complete sha256 p (Inl e) s) = ws_sent s \<and>
   (store s r = Some w \<longrightarrow>
      (\<exists>w'. store (complete sha256 (c, r) (Inl e) s) r = Some w' \<and> lastHash w' = lastHash w)) \<and>
   ws_sent (fst (tick t s)) = ws_sent s \<and>
   (snd (tick t s) = Some (c, r) \<longleftrightarrow>
      map_of (timers s) t = Some c \<and> map_of (watches s) (closure_id c) = Some r \<and>
      (\<exists>w0. store s r = Some w0 \<and> \<not> inFlight w0) \<and> \<not> watchesSuspended s) \<and>
   (map_of (timers s) t = Some c \<and> map_of (watches s) (closure_id c) = Some r \<and>
    store s r = Some w \<and> \<not> inFlight w \<and> \<not> watchesSuspended s \<longrightarrow>
      tick t s = (s\<lparr>store := (store s)(r := Some (w\<lparr>inFlight := True\<rparr>))\<rparr>, Some (c, r)) \<and>
      ws_sent (complete sha256 (c, r) (Inr data) (fst (tick t s)))
        = ws_sent s @
          (if Some (sha256 data) \<noteq> lastHash w
           then [(closure_ws c,
                  MemoryUpdate (closure_id c) (closure_address c) (length data) (sha256 data)),
                 (closure_ws c, BinaryFrame data)]
           else []) \<and>
      store (complete sha256 (c, r) (Inr data) (fst (tick t s))) r
        = Some (w\<lparr>lastHash := Some (sha256 data), inFlight := False\<rparr>)) \<and>
   watchesSuspended (on_backend_event (SnapshotLoading name) s) \<and>
   tick t (on_backend_event (SnapshotLoading name) s)
     = (on_backend_event (SnapshotLoading name) s, None) \<and>
   (watchesSuspended s \<longrightarrow> tick t s = (s, None)) \<and>
   (ev = SnapshotLoaded name \<or> ev = SnapshotLoadFailed name msg \<longrightarrow>
      \<not> watchesSuspended (on_backend_event ev s) \<and>
      (map_of (timers s) t = Some c \<and> map_of (watches s) (closure_id c) = Some r \<and>
       store s r = Some w \<and> \<not> inFlight w \<longrightarrow>
         snd (tick t (on_backend_event ev s)) = Some (c, r)) \<and>
      (s = steps sha256 earlier broker0 \<and> (ident, r) \<in> set (watches s) \<longrightarrow>
         (\<exists>w'. store (on_backend_event ev s) r = Some w' \<and> lastHash w' = None) \<and>
         (list_all (\<lambda>x. \<not> reports_on r x) later \<longrightarrow>
            ws_sent (complete sha256 (c, r) (Inr data)
                    (steps sha256 later (on_backend_event ev s)))
              = ws_sent (steps sha256 later (on_backend_event ev s)) @
                [(closure_ws c,
                  MemoryUpdate (closure_id c) (closure_address c) (length data) (sha256 data)),
                 (closure_ws c, BinaryFrame data)])))"
proof -
  have p1: "store s r = Some w \<longrightarrow>
      ws_sent (complete sha256 (c, r) (Inr data) s)
        = ws_sent s @
          (if Some (sha256 data) \<noteq> lastHash w
           then [(closure_ws c,
                  MemoryUpdate (closure_id c) (closure_address c) (length data) (sha256 data)),
                 (closure_ws c, BinaryFrame data)]
           else []) \<and>
      (\<exists>w'. store (complete sha256 (c, r) (Inr data) s) r = Some w' \<and>
            lastHash w' = Some (sha256 data)) \<and>
      ws_sent (complete sha256 (c, r) (Inr data) (complete sha256 (c, r) (Inr data) s))
        = ws_sent (complete sha256 (c, r) (Inr data) s)"
    using complete_stores_digest [of s r w sha256 c data]
      repeated_poll_silent [of s r w sha256 c data c]
    by (simp add: complete_sent_data update_frames_def)
  have p2: "ws_sent (complete sha256 p (Inl e) s) = ws_sent s"
    by (rule complete_sent_error)
  have p2b: "store s r = Some w \<longrightarrow>
      (\<exists>w'. store (complete sha256 (c, r) (Inl e) s) r = Some w' \<and> lastHash w' = lastHash w)"
    using complete_error_keeps_digest [of s r w sha256 c e] by blast
  have p3: "ws_sent (fst (tick t s)) = ws_sent s"
    by (rule tick_sends_nothing)
  have p3b: "snd (tick t s) = Some (c, r) \<longleftrightarrow>
      map_of (timers s) t = Some c \<and> map_of (watches s) (closure_id c) = Some r \<and>
      (\<exists>w0. store s r = Some w0 \<and> \<not> inFlight w0) \<and> \<not> watchesSuspended s"
    by (rule tick_poll_iff)
  have p3c: "map_of (timers s) t = Some c \<and> map_of (watches s) (closure_id c) = Some r \<and>
    store s r = Some w \<and> \<not> inFlight w \<and> \<not> watchesSuspended s \<longrightarrow>
      tick t s = (s\<lparr>store := (store s)(r := Some (w\<lparr>inFlight := True\<rparr>))\<rparr>, Some (c, r)) \<and>
      ws_sent (complete sha256 (c, r) (Inr data) (fst (tick t s)))
        = ws_sent s @
          (if Some (sha256 data) \<noteq> lastHash w
           then [(closure_ws c,
                  MemoryUpdate (closure_id c) (closure_address c) (length data) (sha256 data)),
                 (closure_ws c, BinaryFrame data)]
           else []) \<and>
      store (complete sha256 (c, r) (Inr data) (fst (tick t s))) r
        = Some (w\<lparr>lastHash := Some (sha256 data), inFlight := False\<rparr>)"
  proof
    assume "map_of (timers s) t = Some c \<and> map_of (watches s) (closure_id c) = Some r \<and>
      store s r = Some w \<and> \<not> inFlight w \<and> \<not> watchesSuspended s"
    then have h: "map_of (timers s) t = Some c" "map_of (watches s) (closure_id c) = Some r"
      "store s r = Some w" "\<not> inFlight w" "\<not> watchesSuspended s"
      by simp_all
    from tick_polls [OF h] poll_after_tick [OF h, of sha256 data]
    show "tick t s = (s\<lparr>store := (store s)(r := Some (w\<lparr>inFlight := True\<rparr>))\<rparr>, Some (c, r)) \<and>
      ws_sent (complete sha256 (c, r) (Inr data) (fst (tick t s)))
        = ws_sent s @
          (if Some (sha256 data) \<noteq> lastHash w
           then [(closure_ws c,
                  MemoryUpdate (closure_id c) (closure_address c) (length data) (sha256 data)),
                 (closure_ws c, BinaryFrame data)]
           else []) \<and>
      store (complete sha256 (c, r) (Inr data) (fst (tick t s))) r
        = Some (w\<lparr>lastHash := Some (sha256 data), inFlight := False\<rparr>)"
      by (simp add: update_frames_def)
  qed
  have p4: "watchesSuspended (on_backend_event (SnapshotLoading name) s)"
    by (simp add: on_backend_event_def suspendAllWatches_def)
  have p4b: "tick t (on_backend_event (SnapshotLoading name) s)
     = (on_backend_event (SnapshotLoading name) s, None)"
    by (rule tick_suspended) (simp add: on_backend_event_def suspendAllWatches_def)
  have p5: "watchesSuspended s \<longrightarrow> tick t s = (s, None)"
    by (simp add: tick_suspended)
  have p6: "ev = SnapshotLoaded name \<or> ev = SnapshotLoadFailed name msg \<longrightarrow>
      \<not> watchesSuspended (on_backend_event ev s) \<and>
      (map_of (timers s) t = Some c \<and> map_of (watches s) (closure_id c) = Some r \<and>
       store s r = Some w \<and> \<not> inFlight w \<longrightarrow>
         snd (tick t (on_backend_event ev s)) = Some (c, r)) \<and>
      (s = steps sha256 earlier broker0 \<and> (ident, r) \<in> set (watches s) \<longrightarrow>
         (\<exists>w'. store (on_backend_event ev s) r = Some w' \<and> lastHash w' = None) \<and>
         (list_all (\<lambda>x. \<not> reports_on r x) later \<longrightarrow>
            ws_sent (complete sha256 (c, r) (Inr data)
                    (steps sha256 later (on_backend_event ev s)))
              = ws_sent (steps sha256 later (on_backend_event ev s)) @
                [(closure_ws c,
                  MemoryUpdate (closure_id c) (closure_address c) (length data) (sha256 data)),
                 (closure_ws c, BinaryFrame data)]))"
  proof (intro impI conjI)
    assume ev: "ev = SnapshotLoaded name \<or> ev = SnapshotLoadFailed name msg"
    then have r: "on_backend_event ev s = resumeAllWatches True s"
      by (auto simp: on_backend_event_def)
    show "\<not> watchesSuspended (on_backend_event ev s)"
      by (simp add: r)
  next
    assume ev: "ev = SnapshotLoaded name \<or> ev = SnapshotLoadFailed name msg"
    then have r: "on_backend_event ev s = resumeAllWatches True s"
      by (auto simp: on_backend_event_def)
    assume "map_of (timers s) t = Some c \<and> map_of (watches s) (closure_id c) = Some r \<and>
       store s r = Some w \<and> \<not> inFlight w"
    then have h: "map_of (timers s) t = Some c" "map_of (watches s) (closure_id c) = Some r"
      "store s r = Some w" "\<not> inFlight w"
      by simp_all
    show "snd (tick t (on_backend_event ev s)) = Some (c, r)"
      unfolding r by (rule tick_after_resume [OF h])
  next
    assume ev: "ev = SnapshotLoaded name \<or> ev = SnapshotLoadFailed name msg"
    then have r: "on_backend_event ev s = resumeAllWatches True s"
      by (auto simp: on_backend_event_def)
    assume reg: "s = steps sha256 earlier broker0 \<and> (ident, r) \<in> set (watches s)"
    then have wf: "well_formed s"
      using well_formed_steps [OF well_formed_broker0, of sha256 earlier] by simp
    from reg have "(ident, r) \<in> set (watches s)"
      by (rule conjunct2)
    from resume_invalidates [OF wf this] have u: "unreported r (on_backend_event ev s)"
      by (simp only: r)
    then show "\<exists>w'. store (on_backend_event ev s) r = Some w' \<and> lastHash w' = None"
      by (auto elim: unreportedE)
    assume "list_all (\<lambda>x. \<not> reports_on r x) later"
    from unreported_steps [OF u this]
    have "unreported r (steps sha256 later (on_backend_event ev s))" .
    from first_poll_reports [OF this]
    show "ws_sent (complete sha256 (c, r) (Inr data)
                    (steps sha256 later (on_backend_event ev s)))
              = ws_sent (steps sha256 later (on_backend_event ev s)) @
                [(closure_ws c,
                  MemoryUpdate (closure_id c) (closure_address c) (length data) (sha256 data)),
                 (closure_ws c, BinaryFrame data)]"
      by (simp add: update_frames_def)
  qed
  from p1 p2 p2b p3 p3b p3c p4 p4b p5 p6 show ?thesis
    by (intro conjI)
qed

lemma hexdump_1234: "hexdump [1, 2, 3, 4] = ''01020304''"
  by (simp add: hexdump_def hexdigit_def)

lemma hexdump_9234: "hexdump [9, 2, 3, 4] = ''09020304''"
  by (simp add: hexdump_def hexdigit_def)

lemma watching_fields:
  "store watching 0 = Some \<lparr> watch_id = ''w'', watch_address = ''0xB8000'', watch_size = 4,
       intervalMs = 200, timer = 0, lastHash = Some ''01020304'', inFlight = False \<rparr>"
  "watches watching = [(''w'', 0)]"
  "timers watching = [(0, closure0)]"
  "watchesSuspended watching = False"
  "ws_sent watching = [(1, MemoryUpdate ''w'' ''0xB8000'' 4 ''01020304''), (1, BinaryFrame [1, 2, 3, 4])]"
  by (simp_all add: watching_def watched_once_def steps_def step_def startMemoryWatch_def
      stopMemoryWatch_def broker0_def tick_def complete_def clear_inFlight_def closure0_def
      MIN_INTERVAL_MS_def hexdump_1234 Let_def)

lemma loading_eq: "loading = on_backend_event (SnapshotLoading ''s1'') watching"
  by (simp add: loading_def watching_def steps_def step_def)

lemma loading_fields:
  "watches loading = [(''w'', 0)]"
  "timers loading = [(0, closure0)]"
  "watchesSuspended loading = True"
  "ws_sent loading = ws_sent watching"
  "store loading = store watching"
  by (simp_all add: loading_eq on_backend_event_def suspendAllWatches_def watching_fields)

theorem C3_watch_reports_on_change_witness:
  "store watching 0 = Some \<lparr> watch_id = ''w'', watch_address = ''0xB8000'', watch_size = 4,
       intervalMs = 200, timer = 0, lastHash = Some ''01020304'', inFlight = False \<rparr> \<and>
   ws_sent (complete hexdump (closure0, 0) (Inr [1, 2, 3, 4]) watching) = ws_sent watching \<and>
   ws_sent (complete hexdump (closure0, 0) (Inr [9, 2, 3, 4]) watching)
     = ws_sent watching @ [(1, MemoryUpdate ''w'' ''0xB8000'' 4 ''09020304''),
                        (1, BinaryFrame [9, 2, 3, 4])] \<and>
   (\<exists>w'. store (complete hexdump (closure0, 0) (Inr [9, 2, 3, 4]) watching) 0 = Some w' \<and>
         lastHash w' = Some ''09020304'') \<and>
   map_of (timers watching) 0 = Some closure0 \<and>
   map_of (watches watching) (closure_id closure0) = Some 0 \<and>
   \<not> watchesSuspended watching \<and>
   snd (tick 0 watching) = Some (closure0, 0) \<and>
   ws_sent (complete hexdump (closure0, 0) (Inr [9, 2, 3, 4]) (fst (tick 0 watching)))
     = ws_sent watching @ [(1, MemoryUpdate ''w'' ''0xB8000'' 4 ''09020304''),
                        (1, BinaryFrame [9, 2, 3, 4])] \<and>
   store (complete hexdump (closure0, 0) (Inr [9, 2, 3, 4]) (fst (tick 0 watching))) 0
     = Some \<lparr> watch_id = ''w'', watch_address = ''0xB8000'', watch_size = 4,
         intervalMs = 200, timer = 0, lastHash = Some ''09020304'', inFlight = False \<rparr> \<and>
   watchesSuspended loading \<and>
   tick 0 loading = (loading, None) \<and>
   map_of (timers loading) 0 = Some closure0 \<and>
   map_of (watches loading) (closure_id closure0) = Some 0 \<and>
   snd (tick 0 (on_backend_event (SnapshotLoaded ''s1'') loading)) = Some (closure0, 0) \<and>
   loading = steps hexdump (watched_once @ [Backend_event (SnapshotLoading ''s1'')]) broker0 \<and>
   (''w'', 0) \<in> set (watches loading) \<and>
   list_all (\<lambda>x. \<not> reports_on 0 x) [Timer_fires 0] \<and>
   ws_sent (complete hexdump (closure0, 0) (Inr [1, 2, 3, 4])
           (steps hexdump [Timer_fires 0] (on_backend_event (SnapshotLoaded ''s1'') loading)))
     = ws_sent watching @ [(1, MemoryUpdate ''w'' ''0xB8000'' 4 ''01020304''),
                        (1, BinaryFrame [1, 2, 3, 4])]"
proof -
  note ta = C3_watch_reports_on_change [of watching 0
      "\<lparr> watch_id = ''w'', watch_address = ''0xB8000'', watch_size = 4,
         intervalMs = 200, timer = 0, lastHash = Some ''01020304'', inFlight = False \<rparr>"
      hexdump closure0 "[1, 2, 3, 4]" "(closure0, 0)" "Error ''''" 0 "''s1''"
      "StatusEvent Running" "''''" "[]" "''w''" "[]"]
  note tb = C3_watch_reports_on_change [of watching 0
      "\<lparr> watch_id = ''w'', watch_address = ''0xB8000'', watch_size = 4,
         intervalMs = 200, timer = 0, lastHash = Some ''01020304'', inFlight = False \<rparr>"
      hexdump closure0 "[9, 2, 3, 4]" "(closure0, 0)" "Error ''''" 0 "''s1''"
      "StatusEvent Running" "''''" "[]" "''w''" "[]"]
  note tc = C3_watch_reports_on_change [of loading 0
      "\<lparr> watch_id = ''w'', watch_address = ''0xB8000'', watch_size = 4,
         intervalMs = 200, timer = 0, lastHash = Some ''01020304'', inFlight = False \<rparr>"
      hexdump closure0 "[1, 2, 3, 4]" "(closure0, 0)" "Error ''''" 0 "''s1''"
      "SnapshotLoaded ''s1''" "''''"
      "watched_once @ [Backend_event (SnapshotLoading ''s1'')]" "''w''" "[Timer_fires 0]"]
  have h1: "store watching 0 = Some \<lparr> watch_id = ''w'', watch_address = ''0xB8000'',
       watch_size = 4, intervalMs = 200, timer = 0, lastHash = Some ''01020304'',
       inFlight = False \<rparr>"
    by (rule watching_fields(1))
  from ta h1 have c1:
    "ws_sent (complete hexdump (closure0, 0) (Inr [1, 2, 3, 4]) watching) = ws_sent watching"
    by (simp add: hexdump_1234)
  from tb h1 have c2: "ws_sent (complete hexdump (closure0, 0) (Inr [9, 2, 3, 4]) watching)
     = ws_sent watching @ [(1, MemoryUpdate ''w'' ''0xB8000'' 4 ''09020304''),
                        (1, BinaryFrame [9, 2, 3, 4])]"
    by (simp add: hexdump_9234 closure0_def)
  from tb h1 have n1:
    "\<exists>w'. store (complete hexdump (closure0, 0) (Inr [9, 2, 3, 4]) watching) 0 = Some w' \<and>
         lastHash w' = Some (hexdump [9, 2, 3, 4])"
    by blast
  have k1: "map_of (timers watching) 0 = Some closure0"
    and k2: "map_of (watches watching) (closure_id closure0) = Some 0"
    and k5: "\<not> watchesSuspended watching"
    by (simp_all add: watching_fields closure0_def)
  have k4: "\<not> inFlight \<lparr> watch_id = ''w'', watch_address = ''0xB8000'', watch_size = 4,
       intervalMs = 200, timer = 0, lastHash = Some ''01020304'', inFlight = False \<rparr>"
    by simp
  from tb k1 k2 h1 k4 k5 have n2: "snd (tick 0 watching) = Some (closure0, 0)"
    by blast
  from tb k1 k2 h1 k4 k5 have
    "ws_sent (complete hexdump (closure0, 0) (Inr [9, 2, 3, 4]) (fst (tick 0 watching)))
       = ws_sent watching @
          (if Some (hexdump [9, 2, 3, 4]) \<noteq> lastHash \<lparr> watch_id = ''w'',
               watch_address = ''0xB8000'', watch_size = 4, intervalMs = 200, timer = 0,
               lastHash = Some ''01020304'', inFlight = False \<rparr>
           then [(closure_ws closure0,
                  MemoryUpdate (closure_id closure0) (closure_address closure0)
                    (length [9, 2, 3, 4 :: 8 word]) (hexdump [9, 2, 3, 4])),
                 (closure_ws closure0, BinaryFrame [9, 2, 3, 4])]
           else [])"
    by blast
  then have n3:
    "ws_sent (complete hexdump (closure0, 0) (Inr [9, 2, 3, 4]) (fst (tick 0 watching)))
       = ws_sent watching @ [(1, MemoryUpdate ''w'' ''0xB8000'' 4 ''09020304''),
                          (1, BinaryFrame [9, 2, 3, 4])]"
    by (simp add: hexdump_9234 closure0_def)
  from tb k1 k2 h1 k4 k5 have
    "store (complete hexdump (closure0, 0) (Inr [9, 2, 3, 4]) (fst (tick 0 watching))) 0
       = Some (\<lparr> watch_id = ''w'', watch_address = ''0xB8000'', watch_size = 4,
           intervalMs = 200, timer = 0, lastHash = Some ''01020304'', inFlight = False \<rparr>
           \<lparr>lastHash := Some (hexdump [9, 2, 3, 4]), inFlight := False\<rparr>)"
    by blast
  then have n4:
    "store (complete hexdump (closure0, 0) (Inr [9, 2, 3, 4]) (fst (tick 0 watching))) 0
       = Some \<lparr> watch_id = ''w'', watch_address = ''0xB8000'', watch_size = 4,
           intervalMs = 200, timer = 0, lastHash = Some ''09020304'', inFlight = False \<rparr>"
    by (simp add: hexdump_9234)
  have h3: "watchesSuspended loading"
    by (simp add: loading_fields)
  from tc h3 have c3: "tick 0 loading = (loading, None)"
    by blast
  have l1: "map_of (timers loading) 0 = Some closure0"
    and l2: "map_of (watches loading) (closure_id closure0) = Some 0"
    by (simp_all add: loading_fields closure0_def)
  have l3: "store loading 0 = Some \<lparr> watch_id = ''w'', watch_address = ''0xB8000'',
       watch_size = 4, intervalMs = 200, timer = 0, lastHash = Some ''01020304'',
       inFlight = False \<rparr>"
    by (simp add: loading_fields watching_fields)
  have h4: "loading = steps hexdump (watched_once @ [Backend_event (SnapshotLoading ''s1'')]) broker0"
    by (rule loading_def)
  have h5: "(''w'', 0) \<in> set (watches loading)"
    by (simp add: loading_fields)
  have h6: "list_all (\<lambda>x. \<not> reports_on 0 x) [Timer_fires 0]"
    by (simp add: reports_on_def)
  have h7: "SnapshotLoaded ''s1'' = SnapshotLoaded ''s1'' \<or> SnapshotLoaded ''s1'' = SnapshotLoadFailed ''s1'' ''''"
    by simp
  from tc h7 l1 l2 l3 k4 have n5:
    "snd (tick 0 (on_backend_event (SnapshotLoaded ''s1'') loading)) = Some (closure0, 0)"
    by blast
  from tc h7 h4 h5 h6 have
    "ws_sent (complete hexdump (closure0, 0) (Inr [1, 2, 3, 4])
           (steps hexdump [Timer_fires 0] (on_backend_event (SnapshotLoaded ''s1'') loading)))
     = ws_sent (steps hexdump [Timer_fires 0] (on_backend_event (SnapshotLoaded ''s1'') loading)) @
         [(closure_ws closure0,
           MemoryUpdate (closure_id closure0) (closure_address closure0)
             (length [1, 2, 3, 4 :: 8 word]) (hexdump [1, 2, 3, 4])),
          (closure_ws closure0, BinaryFrame [1, 2, 3, 4])]"
    by blast
  moreover have "ws_sent (steps hexdump [Timer_fires 0] (on_backend_event (SnapshotLoaded ''s1'') loading))
     = ws_sent watching"
    by (simp add: steps_def step_def tick_sends_nothing on_backend_event_def loading_fields)
  ultimately have c4:
    "ws_sent (complete hexdump (closure0, 0) (Inr [1, 2, 3, 4])
           (steps hexdump [Timer_fires 0] (on_backend_event (SnapshotLoaded ''s1'') loading)))
     = ws_sent watching @ [(1, MemoryUpdate ''w'' ''0xB8000'' 4 ''01020304''),
                        (1, BinaryFrame [1, 2, 3, 4])]"
    by (simp add: closure0_def hexdump_1234)
  from n1 have n1': "\<exists>w'. store (complete hexdump (closure0, 0) (Inr [9, 2, 3, 4]) watching) 0
       = Some w' \<and> lastHash w' = Some ''09020304''"
    by (simp only: hexdump_9234)
  from h1 c1 c2 n1' k1 k2 k5 n2 n3 n4 h3 c3 l1 l2 n5 h4 h5 h6 c4 show ?thesis
    by (intro conjI)
qed

text \<open>
  Claim C4 at a concrete run. A client on socket 1 starts the watch \<open>w\<close> and its connection
  closes. The close handler only removes the socket from the channel subscriptions: the
  watch is still registered, its timer is still active, the next tick starts a poll, and
  the poll's frames are sent to the closed socket. An explicit \<open>memory:unwatch\<close> and the
  close of the server do remove the watch.
\<close>

theorem C4_watch_outlives_disconnect:
  "watch_then_disconnect = steps hexdump [Watch_msg 1 ''w'' ''0xB8000'' 4 200, Socket_closes 1] broker0 \<and>
   subscriptions watch_then_disconnect = [(''memory'', [])] \<and>
   watches watch_then_disconnect = [(''w'', 0)] \<and>
   timers watch_then_disconnect = [(0, closure0)] \<and>
   snd (tick 0 watch_then_disconnect) = Some (closure0, 0) \<and>
   ws_sent (complete hexdump (closure0, 0) (Inr [1, 2, 3, 4]) (fst (tick 0 watch_then_disconnect)))
     = [(1, MemoryUpdate ''w'' ''0xB8000'' 4 ''01020304''), (1, BinaryFrame [1, 2, 3, 4])] \<and>
   watches (step hexdump (Unwatch_msg ''w'') watch_then_disconnect) = [] \<and>
   timers (step hexdump (Unwatch_msg ''w'') watch_then_disconnect) = [] \<and>
   watches (step hexdump Server_closes watch_then_disconnect) = [] \<and>
   timers (step hexdump Server_closes watch_then_disconnect) = []"
  by (simp add: watch_then_disconnect_def steps_def step_def startMemoryWatch_def
      stopMemoryWatch_def broker0_def tick_def complete_def clear_inFlight_def closure0_def
      on_ws_close_def removeClient_def on_server_close_def stopAllWatches_def table_delete_def
      MIN_INTERVAL_MS_def hexdump_1234 Let_def)

end
